theory Spec2Isabelle
  imports Complex_Main "HOL-Library.Monad_Syntax" "HOL-Library.Multiset"
    "HOL-Library.Signed_Division"
begin

chapter \<open>The model\<close>

section \<open>Raw arrays and pixel indices\<close>

text \<open>
  The stippler sources index every buffer with \<open>pxind\<close>, a signed 32-bit integer
  (\<open>typedef qint32 pxind\<close> in imagedata.h), and keep their buffers in raw C++ arrays.
  A buffer is modelled as a list and an index as an \<open>int\<close>; a read or a write outside
  the buffer (undefined behaviour in C++) is the value \<open>None\<close>, so that every theorem
  that shows a result \<open>Some\<close> also shows that no access left its buffer.
\<close>

type_synonym pxind = int

definition rd :: "'a list \<Rightarrow> pxind \<Rightarrow> 'a option" where
  "rd xs i = (if 0 \<le> i \<and> i < int (length xs) then Some (xs ! nat i) else None)"

definition wr :: "'a list \<Rightarrow> pxind \<Rightarrow> 'a \<Rightarrow> 'a list option" where
  "wr xs i v = (if 0 \<le> i \<and> i < int (length xs) then Some (xs[nat i := v]) else None)"


definition SLIC_PIXEL_GRANULARITY :: pxind where
  "SLIC_PIXEL_GRANULARITY = 1000"

definition SLIC_CLUSTER_GRANULARITY :: pxind where
  "SLIC_CLUSTER_GRANULARITY = 10"

section \<open>SLIC finalization: counting sort of the pixels by label\<close>

text \<open>
  The prefix sums that \<open>SLIC::increment\<close> writes when the sorting stage starts
  (case \<open>SORT_PIXELS_AS_SUPERPIXELS\<close>, \<open>k == pixelCount - 1\<close>):
  \<^verbatim>\<open>
  pixelSortingOffsets[0] = nPixelsPerCluster[0];
  for(pxind i = 1; i < kParam; i += 1)
      pixelSortingOffsets[i] = nPixelsPerCluster[i] + pixelSortingOffsets[i - 1];
  \<close>
\<close>

function sortingOffsetsLoop :: "pxind \<Rightarrow> pxind \<Rightarrow> pxind list \<Rightarrow> pxind list \<Rightarrow> pxind list option" where
  "sortingOffsetsLoop i kParam nPixelsPerCluster offs =
     (if i < kParam then
        do {
          n \<leftarrow> rd nPixelsPerCluster i;
          p \<leftarrow> rd offs (i - 1);
          offs' \<leftarrow> wr offs i (n + p);
          sortingOffsetsLoop (i + 1) kParam nPixelsPerCluster offs'
        }
      else Some offs)"
  by pat_completeness auto
termination
  by (relation "measure (\<lambda>(i, kParam, _, _). nat (kParam - i))") auto

definition initSortingOffsets :: "pxind \<Rightarrow> pxind list \<Rightarrow> pxind list \<Rightarrow> pxind list option" where
  "initSortingOffsets kParam nPixelsPerCluster offs =
     do {
       n \<leftarrow> rd nPixelsPerCluster 0;
       offs' \<leftarrow> wr offs 0 n;
       sortingOffsetsLoop 1 kParam nPixelsPerCluster offs'
     }"

text \<open>
  \<open>SLIC::sortPixelsIntoSuperpixels\<close>: the downward scan
  \<^verbatim>\<open>
  for(; k >= endPx; k -= 1) {
      label = clusterLabels[k];
      pixelSortingOffsets[label] -= 1;
      sortedPixels[pixelSortingOffsets[label]] = k;
  }
  \<close>
  on the state \<open>(k, pixelSortingOffsets, sortedPixels)\<close>. The label \<open>-1\<close>
  (\<open>SUPERPIXELLATION_NONE_LABEL\<close>, excluded by a \<open>Q_ASSERT\<close> only) indexes outside
  \<open>pixelSortingOffsets\<close> like any other label that is not a cluster.
\<close>

function sortPixelsIntoSuperpixels ::
  "pxind \<Rightarrow> pxind list \<Rightarrow> pxind \<times> pxind list \<times> pxind list \<Rightarrow> (pxind \<times> pxind list \<times> pxind list) option" where
  "sortPixelsIntoSuperpixels endPx clusterLabels (k, offs, sortedPixels) =
     (if k \<ge> endPx then
        do {
          label \<leftarrow> rd clusterLabels k;
          p \<leftarrow> rd offs label;
          offs' \<leftarrow> wr offs label (p - 1);
          sortedPixels' \<leftarrow> wr sortedPixels (p - 1) k;
          sortPixelsIntoSuperpixels endPx clusterLabels (k - 1, offs', sortedPixels')
        }
      else Some (k, offs, sortedPixels))"
  by pat_completeness auto
termination
  by (relation "measure (\<lambda>(endPx, _, k, _, _). nat (k - endPx + 1))") auto

lemma sortPixelsIntoSuperpixels_cursor:
  "sortPixelsIntoSuperpixels endPx clusterLabels (k, offs, sortedPixels) = Some (k', offs', sortedPixels')
   \<Longrightarrow> k' = min k (endPx - 1)"
proof (induction endPx clusterLabels "(k, offs, sortedPixels)" arbitrary: k offs sortedPixels
       rule: sortPixelsIntoSuperpixels.induct)
  case (1 endPx clusterLabels k offs sortedPixels)
  show ?case
  proof (cases "k \<ge> endPx")
    case False
    with "1.prems" show ?thesis by (simp add: sortPixelsIntoSuperpixels.simps)
  next
    case True
    from "1.prems" True obtain label p o1 s1 where
      a: "rd clusterLabels k = Some label" "rd offs label = Some p"
         "wr offs label (p - 1) = Some o1" "wr sortedPixels (p - 1) k = Some s1"
      and b: "sortPixelsIntoSuperpixels endPx clusterLabels (k - 1, o1, s1) = Some (k', offs', sortedPixels')"
      by (subst (asm) sortPixelsIntoSuperpixels.simps) (auto simp: bind_eq_Some_conv)
    from "1.hyps"[OF True a b] True show ?thesis by simp
  qed
qed

text \<open>
  The stage as \<open>SLIC::increment\<close> runs it. The stage is entered with \<open>k = pixelCount - 1\<close>
  (\<open>updateKAndProgress\<close>, case \<open>REASSIGN_CONNECTED_COMPONENTS\<close>); every increment computes
  \<open>incEnd = k - SLIC_PIXEL_GRANULARITY\<close>, raised to the loop limit \<open>0\<close> when it falls below it,
  writes the offset table on the first increment and scans down to \<open>incEnd\<close>; the stage is
  left by the first increment that finds \<open>k < 0\<close>.
\<close>

definition sortIncEnd :: "pxind \<Rightarrow> pxind" where
  "sortIncEnd k = (let incEnd = k + (- SLIC_PIXEL_GRANULARITY) in if incEnd < 0 then 0 else incEnd)"

function sortStage ::
  "pxind \<Rightarrow> pxind \<Rightarrow> pxind list \<Rightarrow> pxind list \<Rightarrow> pxind \<times> pxind list \<times> pxind list
   \<Rightarrow> (pxind list \<times> pxind list) option" where
  "sortStage pixelCount kParam clusterLabels nPixelsPerCluster (k, offs, sortedPixels) =
     (if k < 0 then Some (offs, sortedPixels)
      else
        do {
          offs1 \<leftarrow> (if k = pixelCount - 1 then initSortingOffsets kParam nPixelsPerCluster offs
                    else Some offs);
          st \<leftarrow> sortPixelsIntoSuperpixels (sortIncEnd k) clusterLabels (k, offs1, sortedPixels);
          sortStage pixelCount kParam clusterLabels nPixelsPerCluster st
        })"
  by pat_completeness auto
termination
proof (relation "measure (\<lambda>(_, _, _, _, k, _, _). nat (k + 1))", goal_cases)
  case 1
  show ?case by simp
next
  case (2 pixelCount kParam clusterLabels nPixelsPerCluster k offs sortedPixels offs1 st)
  obtain k' o' s' where st: "st = (k', o', s')" by (cases st)
  from 2 st have "k' = min k (sortIncEnd k - 1)"
    using sortPixelsIntoSuperpixels_cursor by blast
  moreover have "sortIncEnd k - 1 < k" using 2(1) by (simp add: sortIncEnd_def Let_def SLIC_PIXEL_GRANULARITY_def)
  ultimately show ?case using 2(1) st by simp
qed


subsection \<open>What the sort is compared with\<close>

text \<open>
  \<open>naiveScan\<close> is the naive pixel-by-pixel scan of the specification: the pixels that carry
  label \<open>j\<close>, in ascending index order. \<open>sortedBucket\<close> is the slice of \<open>sortedPixels\<close> that
  \<open>SLIC::createSuperpixels\<close> copies for cluster \<open>j\<close>: \<open>nPixelsPerCluster[j]\<close> entries from
  \<open>pixelSortingOffsets[j]\<close> on. \<open>validLabels\<close> and \<open>countsMatch\<close> are the state that the
  k-means and reassignment stages leave: every label is a cluster index, and
  \<open>nPixelsPerCluster\<close> counts the pixels of every label.
\<close>

definition startOf :: "pxind list \<Rightarrow> nat \<Rightarrow> int" where
  "startOf npc j = (\<Sum>i<j. npc ! i)"


definition lblCount :: "pxind list \<Rightarrow> nat \<Rightarrow> nat \<Rightarrow> nat" where
  "lblCount L p j = length (filter (\<lambda>q. L ! q = int j) [0..<p])"

definition posOf :: "pxind list \<Rightarrow> pxind list \<Rightarrow> nat \<Rightarrow> int" where
  "posOf L npc p = startOf npc (nat (L ! p)) + int (lblCount L p (nat (L ! p)))"

definition validLabels :: "pxind \<Rightarrow> pxind list \<Rightarrow> bool" where
  "validLabels kParam L = (\<forall>l \<in> set L. 0 \<le> l \<and> l < kParam)"

definition countsMatch :: "pxind \<Rightarrow> pxind list \<Rightarrow> pxind list \<Rightarrow> bool" where
  "countsMatch kParam L npc =
     (length npc = nat kParam \<and> (\<forall>j<nat kParam. npc ! j = int (lblCount L (length L) j)))"


definition sortInv :: "pxind \<Rightarrow> pxind list \<Rightarrow> pxind list \<Rightarrow> pxind \<Rightarrow> pxind list \<Rightarrow> pxind list \<Rightarrow> bool" where
  "sortInv kParam L npc k offs srt =
     (length offs = nat kParam \<and> length srt = length L \<and>
      (\<forall>j<nat kParam. offs ! j = startOf npc j + int (lblCount L (nat (k + 1)) j)) \<and>
      (\<forall>p<length L. k < int p \<longrightarrow> srt ! nat (posOf L npc p) = int p))"


definition naiveScan :: "pxind list \<Rightarrow> pxind \<Rightarrow> pxind list" where
  "naiveScan clusterLabels j =
     map int (filter (\<lambda>p. clusterLabels ! p = j) [0..<length clusterLabels])"

definition sortedBucket :: "pxind list \<Rightarrow> pxind list \<Rightarrow> pxind list \<Rightarrow> nat \<Rightarrow> pxind list" where
  "sortedBucket offs nPixelsPerCluster sortedPixels j =
     take (nat (nPixelsPerCluster ! j)) (drop (nat (offs ! j)) sortedPixels)"

section \<open>Superpixels\<close>

subsection \<open>The pixel buffer\<close>

text \<open>
  \<open>ImageData\<close> (imagedata.cpp): the dimensions, the pixel count \<open>nPixels = w * h\<close> and the
  three CIE L*a*b* channels, one \<open>qreal\<close> per pixel, modelled as real numbers. \<open>xyToK\<close>,
  \<open>kToXY\<close> and \<open>fourNeighbours\<close> are the methods of the same names; C++ \<open>%\<close> and \<open>/\<close> on
  \<open>pxind\<close> truncate towards zero (\<open>smod\<close>, \<open>sdiv\<close>). \<open>fourNeighbours\<close> returns the
  neighbours it found in the order right, up, left, bottom; the length of the list is
  \<open>nNeighbours\<close>.
\<close>

record imageData =
  img_w :: pxind
  img_h :: pxind
  img_nPixels :: pxind
  img_lStar :: "real list"
  img_aStar :: "real list"
  img_bStar :: "real list"

definition xyToK :: "pxind \<Rightarrow> pxind \<Rightarrow> pxind \<Rightarrow> pxind" where
  "xyToK w x y = w * y + x"

definition kToXY :: "pxind \<Rightarrow> pxind \<Rightarrow> pxind \<times> pxind" where
  "kToXY w k = (k smod w, k sdiv w)"

definition fourNeighbours :: "pxind \<Rightarrow> pxind \<Rightarrow> pxind \<Rightarrow> pxind list" where
  "fourNeighbours w h k =
     (let (x, y) = kToXY w k in
        (if x + 1 < w then [xyToK w (x + 1) y] else []) @
        (if y - 1 \<ge> 0 then [xyToK w x (y - 1)] else []) @
        (if x - 1 \<ge> 0 then [xyToK w (x - 1) y] else []) @
        (if y + 1 < h then [xyToK w x (y + 1)] else []))"

subsection \<open>The constructor \<open>Superpixellation::Superpixel::Superpixel\<close>\<close>

text \<open>
  The model keeps the identifier, the mean L*a*b* colour, the pixel list (boundary pixels
  first, then interior pixels, each in the order of the input list), the three counts and
  the two standard deviations. The centre position and the mean RGB colour, which are
  computed from the same sums and read by none of the properties below, are not
  modelled. The mean colour of a superpixel without pixels is \<open>0.0 / 0.0\<close> in the source,
  a NaN, which is \<open>None\<close> here. The sums of squared deviations are divided by
  \<open>nPixels - 1\<close>: \<open>divideByCount\<close> is that division, and a divisor of zero is an error of
  the constructor. \<open>None\<close> as the result of the constructor is an access outside a buffer
  or this division by zero.

  \<open>differsFromNeighbour\<close> is the inner loop over the four neighbours, which stops at
  the first neighbour whose label differs; \<open>classifyPixels\<close> is the first loop over
  \<open>allPx\<close>, \<open>arrangePixels\<close> the second one, which writes the boundary pixels from
  \<open>orderedPixels\<close> on and the interior pixels from \<open>orderedPixels + nBoundaryPixels\<close> on.
\<close>

record superpixel =
  sp_id :: pxind
  sp_centerColor :: "(real \<times> real \<times> real) option"
  sp_allPx :: "pxind list"
  sp_nInteriorPixels :: pxind
  sp_nBoundaryPixels :: pxind
  sp_nPixels :: pxind
  sp_stdDevColor :: real
  sp_stdDevColorChannels :: "real \<times> real \<times> real"

definition takeArr :: "'a list \<Rightarrow> pxind \<Rightarrow> 'a list option" where
  "takeArr xs n = (if 0 \<le> n \<and> n \<le> int (length xs) then Some (take (nat n) xs) else None)"

fun differsFromNeighbour :: "pxind \<Rightarrow> pxind list \<Rightarrow> pxind list \<Rightarrow> bool option" where
  "differsFromNeighbour label labels [] = Some False"
| "differsFromNeighbour label labels (q # qs) =
     do {
       l \<leftarrow> rd labels q;
       if label \<noteq> l then Some True else differsFromNeighbour label labels qs
     }"

definition isBoundaryPixel :: "imageData \<Rightarrow> pxind list \<Rightarrow> pxind \<Rightarrow> bool option" where
  "isBoundaryPixel img labels px =
     (let neighbours = fourNeighbours (img_w img) (img_h img) px in
        if int (length neighbours) < 4 then Some True
        else do { label \<leftarrow> rd labels px; differsFromNeighbour label labels neighbours })"

fun classifyPixels :: "imageData \<Rightarrow> pxind list \<Rightarrow> pxind list \<Rightarrow> bool list option" where
  "classifyPixels img labels [] = Some []"
| "classifyPixels img labels (px # pxs) =
     do {
       b \<leftarrow> isBoundaryPixel img labels px;
       bs \<leftarrow> classifyPixels img labels pxs;
       Some (b # bs)
     }"

fun channelSum :: "real list \<Rightarrow> pxind list \<Rightarrow> real option" where
  "channelSum ch [] = Some 0"
| "channelSum ch (px # pxs) = do { v \<leftarrow> rd ch px; s \<leftarrow> channelSum ch pxs; Some (v + s) }"

fun squaredDeviationSum :: "real list \<Rightarrow> real \<Rightarrow> pxind list \<Rightarrow> real option" where
  "squaredDeviationSum ch mean [] = Some 0"
| "squaredDeviationSum ch mean (px # pxs) =
     do { v \<leftarrow> rd ch px; s \<leftarrow> squaredDeviationSum ch mean pxs; Some ((mean - v) * (mean - v) + s) }"

fun arrangePixels :: "pxind list \<Rightarrow> bool list \<Rightarrow> pxind list \<times> pxind list" where
  "arrangePixels (px # pxs) (b # bs) =
     (let (boundary, interior) = arrangePixels pxs bs
      in if b then (px # boundary, interior) else (boundary, px # interior))"
| "arrangePixels _ _ = ([], [])"

definition divideByCount :: "real \<Rightarrow> pxind \<Rightarrow> real option" where
  "divideByCount x n = (if n = 0 then None else Some (x / real_of_int n))"

definition Superpixel :: "pxind \<Rightarrow> pxind list \<Rightarrow> pxind \<Rightarrow> pxind list \<Rightarrow> imageData \<Rightarrow> superpixel option" where
  "Superpixel l allPx nPx labels img =
     do {
       pxs \<leftarrow> takeArr allPx nPx;
       lSum \<leftarrow> channelSum (img_lStar img) pxs;
       aSum \<leftarrow> channelSum (img_aStar img) pxs;
       bSum \<leftarrow> channelSum (img_bStar img) pxs;
       isBoundary \<leftarrow> classifyPixels img labels pxs;
       let nBoundaryPixels = int (length (filter id isBoundary));
           lc = lSum / real_of_int nPx; ac = aSum / real_of_int nPx; bc = bSum / real_of_int nPx;
           (boundary, interior) = arrangePixels pxs isBoundary;
           orderedPixels = boundary @ interior
       in
       if nPx > 1 then
         do {
           dlSum \<leftarrow> squaredDeviationSum (img_lStar img) lc orderedPixels;
           daSum \<leftarrow> squaredDeviationSum (img_aStar img) ac orderedPixels;
           dbSum \<leftarrow> squaredDeviationSum (img_bStar img) bc orderedPixels;
           varColor \<leftarrow> divideByCount (dlSum + daSum + dbSum) (nPx - 1);
           varL \<leftarrow> divideByCount dlSum (nPx - 1);
           varA \<leftarrow> divideByCount daSum (nPx - 1);
           varB \<leftarrow> divideByCount dbSum (nPx - 1);
           Some \<lparr> sp_id = l, sp_centerColor = Some (lc, ac, bc), sp_allPx = orderedPixels,
                  sp_nInteriorPixels = nPx - nBoundaryPixels, sp_nBoundaryPixels = nBoundaryPixels,
                  sp_nPixels = nPx,
                  sp_stdDevColor = sqrt varColor,
                  sp_stdDevColorChannels = (sqrt varL, sqrt varA, sqrt varB) \<rparr>
         }
       else
         Some \<lparr> sp_id = l, sp_centerColor = (if nPx = 0 then None else Some (lc, ac, bc)),
                sp_allPx = orderedPixels,
                sp_nInteriorPixels = nPx - nBoundaryPixels, sp_nBoundaryPixels = nBoundaryPixels,
                sp_nPixels = nPx, sp_stdDevColor = 0, sp_stdDevColorChannels = (0, 0, 0) \<rparr>
     }"

text \<open>The accessors \<open>interiorPixels\<close>, \<open>boundaryPixels\<close> and \<open>allPixels\<close> of \<open>Superpixel\<close>.\<close>

definition interiorPixels :: "superpixel \<Rightarrow> pxind list" where
  "interiorPixels sp = take (nat (sp_nInteriorPixels sp)) (drop (nat (sp_nBoundaryPixels sp)) (sp_allPx sp))"

definition boundaryPixels :: "superpixel \<Rightarrow> pxind list" where
  "boundaryPixels sp = take (nat (sp_nBoundaryPixels sp)) (sp_allPx sp)"

definition allPixels :: "superpixel \<Rightarrow> pxind list" where
  "allPixels sp = take (nat (sp_nPixels sp)) (sp_allPx sp)"

text \<open>
  \<open>specBoundary\<close> states the specification's words: a pixel is a boundary pixel when one
  of its four neighbours lies off the image or carries another label. \<open>validImage\<close> is
  an image as \<open>ImageData\<close> builds it.
\<close>

definition specBoundary :: "pxind \<Rightarrow> pxind \<Rightarrow> pxind list \<Rightarrow> pxind \<Rightarrow> bool" where
  "specBoundary w h labels px =
     (let x = px mod w; y = px div w in
        list_ex (\<lambda>(dx, dy).
            (x + dx < 0 \<or> w \<le> x + dx \<or> y + dy < 0 \<or> h \<le> y + dy)
            \<or> labels ! nat (w * (y + dy) + (x + dx)) \<noteq> labels ! nat px)
          [(1, 0), (0, - 1), (- 1, 0), (0, 1)])"

definition validImage :: "imageData \<Rightarrow> bool" where
  "validImage img =
     (0 < img_w img \<and> 0 < img_h img \<and> img_nPixels img = img_w img * img_h img
      \<and> int (length (img_lStar img)) = img_nPixels img
      \<and> int (length (img_aStar img)) = img_nPixels img
      \<and> int (length (img_bStar img)) = img_nPixels img)"

subsection \<open>\<open>SLIC::createSuperpixels\<close>\<close>

text \<open>
  \<open>copyRange\<close> is \<open>new pxind[nPx]\<close> followed by
  \<open>std::copy(sortedPixels + startPx, sortedPixels + endPx, superpixelPx)\<close>.
  \<open>createSuperpixels\<close> is the loop of the method on the state \<open>(k, superpixels)\<close>, and
  \<open>createStage\<close> the stage as \<open>SLIC::increment\<close> runs it: the array of superpixel
  pointers is allocated when \<open>k = 0\<close>, every increment handles
  \<open>SLIC_CLUSTER_GRANULARITY\<close> clusters (fewer at the end), and the stage is left by the
  increment that finds \<open>k\<close> equal to the loop limit \<open>kParam\<close>. A cursor beyond the loop
  limit would never leave the stage: that is \<open>None\<close> too.
\<close>

definition copyRange :: "'a list \<Rightarrow> pxind \<Rightarrow> pxind \<Rightarrow> 'a list option" where
  "copyRange xs firstPx lastPx =
     (if 0 \<le> firstPx \<and> firstPx \<le> lastPx \<and> lastPx \<le> int (length xs)
      then Some (take (nat (lastPx - firstPx)) (drop (nat firstPx) xs)) else None)"

function createSuperpixels ::
  "pxind \<Rightarrow> pxind list \<Rightarrow> pxind list \<Rightarrow> pxind list \<Rightarrow> pxind list \<Rightarrow> imageData
   \<Rightarrow> pxind \<times> superpixel option list \<Rightarrow> (pxind \<times> superpixel option list) option" where
  "createSuperpixels endCluster nPixelsPerCluster offs sortedPixels clusterLabels img (k, superpixels) =
     (if k < endCluster then
        do {
          nPx \<leftarrow> rd nPixelsPerCluster k;
          startPx \<leftarrow> rd offs k;
          superpixelPx \<leftarrow> copyRange sortedPixels startPx (startPx + nPx);
          sp \<leftarrow> Superpixel k superpixelPx nPx clusterLabels img;
          superpixels' \<leftarrow> wr superpixels k (Some sp);
          createSuperpixels endCluster nPixelsPerCluster offs sortedPixels clusterLabels img
            (k + 1, superpixels')
        }
      else Some (k, superpixels))"
  by pat_completeness auto
termination
  by (relation "measure (\<lambda>(endCluster, _, _, _, _, _, k, _). nat (endCluster - k))") auto

lemma createSuperpixels_cursor:
  "createSuperpixels endCluster npc offs srt labels img (k, sps) = Some (k', sps')
   \<Longrightarrow> k' = max k endCluster"
proof (induction endCluster npc offs srt labels img "(k, sps)" arbitrary: k sps
       rule: createSuperpixels.induct)
  case (1 endCluster npc offs srt labels img k sps)
  show ?case
  proof (cases "k < endCluster")
    case False
    with "1.prems" show ?thesis by (simp add: createSuperpixels.simps)
  next
    case True
    from "1.prems" True obtain nPx startPx superpixelPx sp sps1 where
      a: "rd npc k = Some nPx" "rd offs k = Some startPx"
         "copyRange srt startPx (startPx + nPx) = Some superpixelPx"
         "Superpixel k superpixelPx nPx labels img = Some sp"
         "wr sps k (Some sp) = Some sps1"
      and b: "createSuperpixels endCluster npc offs srt labels img (k + 1, sps1) = Some (k', sps')"
      by (subst (asm) createSuperpixels.simps) (auto simp: bind_eq_Some_conv)
    from "1.hyps"[OF True a b] True show ?thesis by simp
  qed
qed

definition createIncEnd :: "pxind \<Rightarrow> pxind \<Rightarrow> pxind" where
  "createIncEnd kParam k =
     (let incEnd = k + SLIC_CLUSTER_GRANULARITY in if incEnd > kParam then kParam else incEnd)"

function createStage ::
  "pxind \<Rightarrow> pxind list \<Rightarrow> pxind list \<Rightarrow> pxind list \<Rightarrow> pxind list \<Rightarrow> imageData
   \<Rightarrow> pxind \<times> superpixel option list \<Rightarrow> superpixel option list option" where
  "createStage kParam nPixelsPerCluster offs sortedPixels clusterLabels img (k, superpixels) =
     (if k = kParam then Some superpixels
      else if kParam < k then None
      else
        do {
          st \<leftarrow> createSuperpixels (createIncEnd kParam k) nPixelsPerCluster offs sortedPixels
                  clusterLabels img
                  (k, if k = 0 then replicate (nat kParam) None else superpixels);
          createStage kParam nPixelsPerCluster offs sortedPixels clusterLabels img st
        })"
  by pat_completeness auto
termination
proof (relation "measure (\<lambda>(kParam, _, _, _, _, _, k, _). nat (kParam - k))", goal_cases)
  case 1
  show ?case by simp
next
  case (2 kParam nPixelsPerCluster offs sortedPixels clusterLabels img k superpixels st)
  obtain k' s' where st: "st = (k', s')" by (cases st)
  from 2 st have "k' = max k (createIncEnd kParam k)"
    using createSuperpixels_cursor by blast
  moreover have "k < createIncEnd kParam k"
    using 2(1,2) by (simp add: createIncEnd_def Let_def SLIC_CLUSTER_GRANULARITY_def)
  ultimately show ?case using 2(1,2) st by simp
qed

text \<open>What the proof shows of the superpixel built for cluster \<open>j\<close>.\<close>

definition superpixelOf :: "pxind list \<Rightarrow> imageData \<Rightarrow> nat \<Rightarrow> superpixel \<Rightarrow> bool" where
  "superpixelOf labels img j sp =
     (sp_id sp = int j
      \<and> allPixels sp = boundaryPixels sp @ interiorPixels sp
      \<and> boundaryPixels sp = filter (specBoundary (img_w img) (img_h img) labels) (naiveScan labels (int j))
      \<and> interiorPixels sp
          = filter (\<lambda>px. \<not> specBoundary (img_w img) (img_h img) labels px) (naiveScan labels (int j)))"

definition exampleImage :: imageData where
  "exampleImage = \<lparr> img_w = 3, img_h = 2, img_nPixels = 6, img_lStar = [1, 2, 3, 4, 5, 6],
     img_aStar = [0, 0, 0, 0, 0, 0], img_bStar = [0, 0, 0, 0, 0, 0] \<rparr>"

section \<open>The segmentation object and its shallow transfer\<close>

text \<open>
  \<open>Superpixellation\<close> (superpixellation.h) holds three pointers, to the array of superpixels,
  to the image and to the label array, the number of superpixels, and two ownership flags.
  A pointer is modelled by its address, \<open>0\<close> the null pointer. The members are
  \<open>const\<close> pointers, so no constructor can change them afterwards.

  \<open>Superpixellation\<close> is the constructor from the parts; it returns the object and the
  caller's three pointers as it leaves them (nulled, the image only when it is not
  shared). \<open>SuperpixellationShallow\<close> is the constructor
  \<open>Superpixellation(Superpixellation& other)\<close>; it returns the new object and \<open>other\<close> as
  the constructor leaves it. \<open>destroySuperpixellation\<close> is the destructor, as the list of
  the \<open>delete\<close> expressions it evaluates, in order.
\<close>

type_synonym addr = nat

record superpixellation =
  spn_superpixels :: addr
  spn_img :: addr
  spn_superpixelLabels :: addr
  spn_nSuperpixels :: pxind
  spn_shareImage :: bool
  spn_shareAll :: bool

datatype deallocation =
    DeleteSuperpixel addr nat
  | DeleteSuperpixelArray addr
  | DeleteImage addr
  | DeleteLabelArray addr

definition Superpixellation ::
  "addr \<Rightarrow> addr \<Rightarrow> addr \<Rightarrow> pxind \<Rightarrow> bool \<Rightarrow> superpixellation \<times> addr \<times> addr \<times> addr" where
  "Superpixellation i sLabels s n sI =
     (\<lparr> spn_superpixels = s, spn_img = i, spn_superpixelLabels = sLabels, spn_nSuperpixels = n,
         spn_shareImage = sI, spn_shareAll = False \<rparr>,
      (if \<not> sI then 0 else i), 0, 0)"

definition SuperpixellationShallow :: "superpixellation \<Rightarrow> superpixellation \<times> superpixellation" where
  "SuperpixellationShallow other =
     (\<lparr> spn_superpixels = spn_superpixels other, spn_img = spn_img other,
         spn_superpixelLabels = spn_superpixelLabels other,
         spn_nSuperpixels = spn_nSuperpixels other,
         spn_shareImage = spn_shareImage other, spn_shareAll = spn_shareAll other \<rparr>,
      other\<lparr> spn_shareAll := True \<rparr>)"

definition destroySuperpixellation :: "superpixellation \<Rightarrow> deallocation list" where
  "destroySuperpixellation s =
     (if \<not> spn_shareAll s then
        (if spn_superpixels s \<noteq> 0
         then map (DeleteSuperpixel (spn_superpixels s)) [0..<nat (spn_nSuperpixels s)]
              @ [DeleteSuperpixelArray (spn_superpixels s)]
         else [])
        @ (if \<not> spn_shareImage s \<and> spn_img s \<noteq> 0 then [DeleteImage (spn_img s)] else [])
        @ (if spn_superpixelLabels s \<noteq> 0 then [DeleteLabelArray (spn_superpixelLabels s)] else [])
      else [])"

text \<open>
  \<open>emptyShell\<close> states the specification's words for the source of a transfer: it
  retains no reference to the transferred arrays.
\<close>

definition emptyShell :: "superpixellation \<Rightarrow> bool" where
  "emptyShell s = (spn_superpixels s = 0 \<and> spn_img s = 0 \<and> spn_superpixelLabels s = 0)"

definition exampleSegmentation :: superpixellation where
  "exampleSegmentation = fst (Superpixellation 200 300 100 2 False)"

section \<open>The Local-Data Filter: Otsu's threshold\<close>

subsection \<open>The arithmetic of the method\<close>

text \<open>
  \<open>pxind\<close> is \<open>qint32\<close>: a sum or product of \<open>pxind\<close> values that leaves 32 bits wraps around,
  which \<open>wrap32\<close> writes out. \<open>qreal\<close> is \<open>double\<close>: every division, subtraction, multiplication and
  addition of \<open>qreal\<close> values yields the exact result rounded to the nearest number with a
  significand of 53 bits, ties to the even significand. \<open>roundToDouble\<close> is this rounding:
  \<open>ulp x\<close> is the distance between neighbouring doubles at \<open>x\<close>, and \<open>roundHalfEven\<close> rounds the
  multiple of it. Numbers too large or too small for the exponent of a double are outside
  the model, and so is a compiler that keeps more digits between two operations. The
  conversion of a \<open>pxind\<close> to \<open>qreal\<close> is exact.
\<close>

definition roundHalfEven :: "real \<Rightarrow> int" where
  "roundHalfEven r =
     (let f = \<lfloor>r\<rfloor>; d = r - of_int f in
        if d < 1 / 2 then f else if 1 / 2 < d then f + 1 else if even f then f else f + 1)"

definition ulp :: "real \<Rightarrow> real" where
  "ulp x = 2 powr of_int (\<lfloor>log 2 \<bar>x\<bar>\<rfloor> - 52)"

definition roundToDouble :: "real \<Rightarrow> real" where
  "roundToDouble x = (if x = 0 then 0 else of_int (roundHalfEven (x / ulp x)) * ulp x)"

subsection \<open>\<open>LocalDataFilter::chooseOtsuThreshold\<close>\<close>








text \<open>
  The between-class variance in the specification's words, for the split before bin
  \<open>b\<close>: the weight of a class is the number of superpixels in its bins, its mean the mean
  bin index, and the variance is the product of the weights and the squared difference of
  the means. A split is a candidate when both classes are non-empty.
  \<open>computedBetweenClassVariance\<close> is the same quantity with every operation on \<open>qreal\<close> values
  rounded, in the order in which the method evaluates them. \<open>histogramOk\<close>: no bin has a
  negative count.
\<close>

definition weightDarkAt :: "pxind list \<Rightarrow> nat \<Rightarrow> int" where
  "weightDarkAt histogram b = (\<Sum>i<b. histogram ! i)"

definition sumDarkAt :: "pxind list \<Rightarrow> nat \<Rightarrow> int" where
  "sumDarkAt histogram b = (\<Sum>i<b. int i * histogram ! i)"

definition otsuCandidate :: "pxind list \<Rightarrow> nat \<Rightarrow> bool" where
  "otsuCandidate histogram b =
     (1 \<le> b \<and> b < length histogram \<and> 0 < weightDarkAt histogram b
      \<and> 0 < weightDarkAt histogram (length histogram) - weightDarkAt histogram b)"

definition betweenClassVariance :: "pxind list \<Rightarrow> nat \<Rightarrow> real" where
  "betweenClassVariance histogram b =
     (let weightDark = weightDarkAt histogram b;
          weightLight = weightDarkAt histogram (length histogram) - weightDark;
          meanDark = real_of_int (sumDarkAt histogram b) / real_of_int weightDark;
          meanLight = real_of_int (sumDarkAt histogram (length histogram) - sumDarkAt histogram b)
                        / real_of_int weightLight
      in real_of_int weightDark * real_of_int weightLight * (meanLight - meanDark)\<^sup>2)"

definition computedBetweenClassVariance :: "pxind list \<Rightarrow> nat \<Rightarrow> real" where
  "computedBetweenClassVariance histogram b =
     (let weightDark = weightDarkAt histogram b;
          weightLight = weightDarkAt histogram (length histogram) - weightDark;
          meanDark = roundToDouble (real_of_int (sumDarkAt histogram b) / real_of_int weightDark);
          meanLight =
            roundToDouble
              (real_of_int (sumDarkAt histogram (length histogram) - sumDarkAt histogram b)
               / real_of_int weightLight);
          diffMean = roundToDouble (meanLight - meanDark)
      in roundToDouble (roundToDouble (real_of_int (weightDark * weightLight) * diffMean) * diffMean))"

definition histogramOk :: "pxind list \<Rightarrow> bool" where
  "histogramOk histogram = (\<forall>h \<in> set histogram. 0 \<le> h)"



section \<open>The Local-Data Filter: classification\<close>

text \<open>
  The scoring basis and the direction of the selection, which the constructor
  \<open>LocalDataFilter::LocalDataFilter\<close> derives from it (\<open>selectBelowThreshold\<close>).
\<close>

datatype ScoreBasis = SIZE | STDDEV_LSTAR | EXTERNAL

definition LOCALDATAFILTER_CLUSTER_GRANULARITY :: pxind where
  "LOCALDATAFILTER_CLUSTER_GRANULARITY = 10"

fun selectBelowThresholdOf :: "ScoreBasis \<Rightarrow> bool" where
  "selectBelowThresholdOf SIZE = False"
| "selectBelowThresholdOf STDDEV_LSTAR = True"
| "selectBelowThresholdOf EXTERNAL = True"

text \<open>
  \<open>LocalDataFilter::filterSuperpixels\<close> on the state
  \<open>(k, selectedSuperpixels, selectedPixels)\<close>; \<open>markPixels\<close> is its inner loop over the
  pixels of one superpixel. The scores and the threshold are \<open>qreal\<close> values, modelled by
  real numbers. \<open>filterStage\<close> is the stage as \<open>LocalDataFilter::increment\<close> runs it, in
  increments of \<open>LOCALDATAFILTER_CLUSTER_GRANULARITY\<close> superpixels, until the cursor is the
  number of superpixels.
\<close>

fun markPixels :: "bool \<Rightarrow> pxind list \<Rightarrow> bool list \<Rightarrow> bool list option" where
  "markPixels choice [] selectedPixels = Some selectedPixels"
| "markPixels choice (px # pxs) selectedPixels =
     do { selectedPixels' \<leftarrow> wr selectedPixels px choice; markPixels choice pxs selectedPixels' }"

function filterSuperpixels ::
  "pxind \<Rightarrow> bool \<Rightarrow> real list \<Rightarrow> real \<Rightarrow> superpixel list \<Rightarrow> pxind \<times> bool list \<times> bool list
   \<Rightarrow> (pxind \<times> bool list \<times> bool list) option" where
  "filterSuperpixels endSuperpixel selectBelowThreshold superpixelScores otsuThreshold superpixels
       (k, selectedSuperpixels, selectedPixels) =
     (if k < endSuperpixel then
        do {
          score \<leftarrow> rd superpixelScores k;
          let choice = (if selectBelowThreshold then score < otsuThreshold else score \<ge> otsuThreshold);
          selectedSuperpixels' \<leftarrow> wr selectedSuperpixels k choice;
          sp \<leftarrow> rd superpixels k;
          selectedPixels' \<leftarrow> markPixels choice (allPixels sp) selectedPixels;
          filterSuperpixels endSuperpixel selectBelowThreshold superpixelScores otsuThreshold superpixels
            (k + 1, selectedSuperpixels', selectedPixels')
        }
      else Some (k, selectedSuperpixels, selectedPixels))"
  by pat_completeness auto
termination
  by (relation "measure (\<lambda>(endSuperpixel, _, _, _, _, k, _, _). nat (endSuperpixel - k))") auto

lemma filterSuperpixels_cursor:
  "filterSuperpixels e below scores thr sps (k, selS, selP) = Some (k', selS', selP')
   \<Longrightarrow> k' = max k e"
proof (induction e below scores thr sps "(k, selS, selP)" arbitrary: k selS selP
       rule: filterSuperpixels.induct)
  case (1 e below scores thr sps k selS selP)
  show ?case
  proof (cases "k < e")
    case False
    with "1.prems" show ?thesis by (simp add: filterSuperpixels.simps)
  next
    case True
    from "1.prems" True obtain score s1 sp p1 where
      a: "rd scores k = Some score"
         "wr selS k (if below then score < thr else score \<ge> thr) = Some s1"
         "rd sps k = Some sp"
         "markPixels (if below then score < thr else score \<ge> thr) (allPixels sp) selP = Some p1"
      and b: "filterSuperpixels e below scores thr sps (k + 1, s1, p1) = Some (k', selS', selP')"
      by (subst (asm) filterSuperpixels.simps) (auto simp: bind_eq_Some_conv Let_def)
    from "1.hyps"[OF True a(1) refl a(2,3,4) b] True show ?thesis by simp
  qed
qed

definition filterIncEnd :: "pxind \<Rightarrow> pxind \<Rightarrow> pxind" where
  "filterIncEnd nSuperpixels k =
     (let incEnd = k + LOCALDATAFILTER_CLUSTER_GRANULARITY
      in if incEnd > nSuperpixels then nSuperpixels else incEnd)"

function filterStage ::
  "pxind \<Rightarrow> bool \<Rightarrow> real list \<Rightarrow> real \<Rightarrow> superpixel list \<Rightarrow> pxind \<times> bool list \<times> bool list
   \<Rightarrow> (bool list \<times> bool list) option" where
  "filterStage nSuperpixels selectBelowThreshold superpixelScores otsuThreshold superpixels
       (k, selectedSuperpixels, selectedPixels) =
     (if k = nSuperpixels then Some (selectedSuperpixels, selectedPixels)
      else if nSuperpixels < k then None
      else
        do {
          st \<leftarrow> filterSuperpixels (filterIncEnd nSuperpixels k) selectBelowThreshold superpixelScores
                  otsuThreshold superpixels (k, selectedSuperpixels, selectedPixels);
          filterStage nSuperpixels selectBelowThreshold superpixelScores otsuThreshold superpixels st
        })"
  by pat_completeness auto
termination
proof (relation "measure (\<lambda>(nSuperpixels, _, _, _, _, k, _, _). nat (nSuperpixels - k))", goal_cases)
  case 1
  show ?case by simp
next
  case (2 nSuperpixels selectBelowThreshold superpixelScores otsuThreshold superpixels k
          selectedSuperpixels selectedPixels st)
  obtain k' s' p' where st: "st = (k', s', p')" by (cases st)
  from 2 st have "k' = max k (filterIncEnd nSuperpixels k)"
    using filterSuperpixels_cursor by blast
  moreover have "k < filterIncEnd nSuperpixels k"
    using 2(1,2) by (simp add: filterIncEnd_def Let_def LOCALDATAFILTER_CLUSTER_GRANULARITY_def)
  ultimately show ?case using 2(1,2) st by simp
qed

text \<open>
  \<open>specSelected\<close> is the selection rule in the specification's words (below the
  threshold, or above it for the size basis); \<open>codeSelected\<close> is the rule of the code,
  which selects a superpixel of the size basis whose score is the threshold.
  \<open>segmentationOf\<close> is the invariant of a segmentation: the pixel list of superpixel \<open>j\<close>
  holds the pixels labelled \<open>j\<close>.
\<close>

definition specSelected :: "ScoreBasis \<Rightarrow> real \<Rightarrow> real \<Rightarrow> bool" where
  "specSelected basis score threshold =
     (case basis of SIZE \<Rightarrow> score > threshold | _ \<Rightarrow> score < threshold)"

definition codeSelected :: "ScoreBasis \<Rightarrow> real \<Rightarrow> real \<Rightarrow> bool" where
  "codeSelected basis score threshold =
     (case basis of SIZE \<Rightarrow> score \<ge> threshold | _ \<Rightarrow> score < threshold)"

definition segmentationOf :: "pxind list \<Rightarrow> superpixel list \<Rightarrow> bool" where
  "segmentationOf labels superpixels =
     (validLabels (int (length superpixels)) labels
      \<and> (\<forall>j<length superpixels.
            set (allPixels (superpixels ! j)) = {int p |p. p < length labels \<and> labels ! p = int j}))"

definition exampleSuperpixel :: superpixel where
  "exampleSuperpixel = \<lparr> sp_id = 0, sp_centerColor = Some (0, 0, 0), sp_allPx = [0],
     sp_nInteriorPixels = 0, sp_nBoundaryPixels = 1, sp_nPixels = 1, sp_stdDevColor = 0,
     sp_stdDevColorChannels = (0, 0, 0) \<rparr>"

text \<open>The invariant of the classification loop.\<close>

definition filterInv ::
  "bool \<Rightarrow> real list \<Rightarrow> real \<Rightarrow> pxind list \<Rightarrow> nat \<Rightarrow> pxind \<Rightarrow> bool list \<Rightarrow> bool list \<Rightarrow> bool" where
  "filterInv below scores thr labels K k selS selP =
     (length selS = K \<and> length selP = length labels
      \<and> (\<forall>j<nat k. selS ! j = (if below then scores ! j < thr else scores ! j \<ge> thr))
      \<and> (\<forall>p<length labels. labels ! p < k \<longrightarrow> selP ! p = selS ! nat (labels ! p)))"

section \<open>The incremental algorithms: \<open>Algorithm\<close> and \<open>SLIC\<close>\<close>

text \<open>
  An algorithm object is a record of its member variables; the members of the base class
  \<open>Algorithm\<close> are the fields \<open>alg_\<close>, those of \<open>SLIC\<close> the fields \<open>slic_\<close>. A pointer member is
  an option (\<open>None\<close> the null pointer) of the value it points to, an array a list. The three
  helper objects of the vector output are only ever allocated and deleted: a flag each. Two
  members have no field: the timer, which \<open>Algorithm::initialize\<close> restarts and which only
  feeds log messages, and the status text that \<open>increment\<close> hands back.

  \<open>qimage\<close> is a \<open>QImage\<close>: the null image that \<open>QImage\<close> becomes when its allocation fails, or
  a raster of a width, a height and pixel values. A cluster center is a position and a colour
  (\<open>QVector2D\<close>, \<open>QVector3D\<close>); \<open>None\<close> stands for a vector with a component that is not a
  finite number, as a division by zero leaves it. The same holds for the two residual errors,
  and a cell \<open>None\<close> of \<open>distancesToCenters\<close> is the value \<open>QDoubleValidator::top()\<close>, infinity.
  Otherwise \<open>qreal\<close> values are real numbers and \<open>pxind\<close> values integers: rounding and
  overflow are outside the model.
\<close>

datatype Progress =
    START | RGB2LAB | SEED_CENTERS | K_MEANS_LABEL_PIXELS | K_MEANS_UPDATE_CENTERS
  | K_MEANS_ASSESS_ITERATION | FIND_CONNECTED_COMPONENTS | CLASSIFY_CONNECTED_COMPONENTS
  | REASSIGN_CONNECTED_COMPONENTS | SORT_PIXELS_AS_SUPERPIXELS | CREATE_SUPERPIXEL_OBJECTS
  | INITIALIZE_OUTPUT | FILL_OUTPUT | FINALIZE_OUTPUT | END

datatype qimage = NullImage | Raster pxind pxind "nat list"

record center =
  c_position :: "(real \<times> real) option"
  c_color :: "(real \<times> real \<times> real) option"

record algorithm =
  alg_input :: "imageData option"
  alg_outputIsEnabled :: bool
  alg_outputImage :: "qimage option"
  alg_outputSVG :: "string option"
  alg_outputSVGPainter :: bool
  alg_svgGenerator :: bool
  alg_svgFileIOWrapper :: bool
  alg_failed :: bool
  alg_finished :: bool

record slic = algorithm +
  slic_kParam :: pxind
  slic_m :: real
  slic_mSquared :: real
  slic_S :: pxind
  slic_sSquared :: real
  slic_searchHalfWidth :: pxind
  slic_searchHalfHeight :: pxind
  slic_lStarOrigin :: "real list option"
  slic_aStarOrigin :: "real list option"
  slic_bStarOrigin :: "real list option"
  slic_previousCenters :: "center list option"
  slic_currentCenters :: "center list option"
  slic_clusterSearchWindow :: "pxind list option"
  slic_previousResidualError :: "real option"
  slic_residualError :: "real option"
  slic_distancesToCenters :: "real option list option"
  slic_clusterLabels :: "pxind list option"
  slic_nPixelsPerCluster :: "pxind list option"
  slic_connectedComponentLabels :: "pxind list option"
  slic_nConnectedComponents :: pxind
  slic_connectedComponentHeap :: "(pxind \<times> pxind \<times> pxind) list option"
  slic_connectedComponentClassifications :: "bool list option"
  slic_visited :: "bool list option"
  slic_unvisitedPixels :: "pxind list option"
  slic_lastVisitedPixel :: pxind
  slic_visitedPx :: "pxind list option"
  slic_pixelSortingOffsets :: "pxind list option"
  slic_sortedPixels :: "pxind list option"
  slic_superpixels :: "superpixel option list option"
  slic_progress :: Progress
  slic_k :: pxind
  slic_iterationCount :: pxind


text \<open>The macros of \<^verbatim>\<open>slic.cpp\<close> that the control flow uses.\<close>

definition SLIC_DEFAULT_K :: pxind where
  "SLIC_DEFAULT_K = 500"

definition SLIC_DEFAULT_M :: real where
  "SLIC_DEFAULT_M = 10"



text \<open>
  \<open>new T[n]\<close> for a scalar type leaves the cells of the array indeterminate. What they hold is a
  parameter of the model, a \<open>freshMemory\<close>: one function from the cell index to its content
  for each array that \<open>SLIC::initialize\<close> allocates. \<open>Center\<close> has a default constructor, which
  zeroes both vectors: \<open>blankCenter\<close>.
\<close>

record freshMemory =
  fm_distancesToCenters :: "nat \<Rightarrow> real option"
  fm_clusterLabels :: "nat \<Rightarrow> pxind"
  fm_nPixelsPerCluster :: "nat \<Rightarrow> pxind"
  fm_connectedComponentLabels :: "nat \<Rightarrow> pxind"
  fm_visited :: "nat \<Rightarrow> bool"
  fm_visitedPx :: "nat \<Rightarrow> pxind"
  fm_pixelSortingOffsets :: "nat \<Rightarrow> pxind"
  fm_sortedPixels :: "nat \<Rightarrow> pxind"

definition newArray :: "pxind \<Rightarrow> (nat \<Rightarrow> 'a) \<Rightarrow> 'a list" where
  "newArray n contents = map contents [0..<nat n]"

definition blankCenter :: center where
  "blankCenter = \<lparr> c_position = Some (0, 0), c_color = Some (0, 0, 0) \<rparr>"


subsection \<open>Class \<open>Algorithm\<close>\<close>

text \<open>
  The methods of \<open>Algorithm\<close> work on every record that extends \<open>algorithm\<close>.
  \<open>Algorithm::initialize\<close> calls the virtual \<open>cleanup\<close>: the function of the dynamic class is
  an argument. The object takes the image over, and deletes the one it held.
  \<open>Algorithm_output\<close> returns the result, the two pointers handed to the caller and the object.
\<close>

definition Algorithm_finalizeOutput :: "'a algorithm_scheme \<Rightarrow> 'a algorithm_scheme" where
  "Algorithm_finalizeOutput s =
     s\<lparr> alg_outputSVGPainter := False, alg_svgGenerator := False, alg_svgFileIOWrapper := False \<rparr>"

definition Algorithm_cleanup :: "'a algorithm_scheme \<Rightarrow> 'a algorithm_scheme" where
  "Algorithm_cleanup s =
     (Algorithm_finalizeOutput s)\<lparr> alg_input := None, alg_failed := False, alg_finished := False \<rparr>"

definition Algorithm_initialize ::
  "('a algorithm_scheme \<Rightarrow> 'a algorithm_scheme option) \<Rightarrow> 'a algorithm_scheme \<Rightarrow> imageData
   \<Rightarrow> (bool \<times> 'a algorithm_scheme) option" where
  "Algorithm_initialize cleanup s img =
     do {
       s1 \<leftarrow> cleanup s;
       Some (True, s1\<lparr> alg_input := Some img \<rparr>)
     }"


definition Algorithm_isFinished :: "'a algorithm_scheme \<Rightarrow> bool" where
  "Algorithm_isFinished s = alg_finished s"




subsection \<open>Class \<open>SLIC\<close>: construction, cleanup, initialization\<close>

text \<open>
  \<open>SLIC_new\<close> is the object that the constructor leaves. \<open>SLIC::cleanup\<close> deletes every buffer
  that is not null. For the array of superpixel pointers it first deletes the superpixel in
  each of the \<open>kParam\<close> cells that is not null. \<open>new Superpixel*[kParam]\<close> leaves the cells
  indeterminate, and only \<open>createSuperpixels\<close> stores into them: a cell \<open>None\<close> is one that has
  not been written yet, and deleting through it is undefined. \<open>superpixelsDeletable\<close> says that
  there is no such cell; \<open>SLIC_cleanup\<close> is \<open>None\<close> otherwise.

  \<open>SLIC::initialize\<close> does not assign \<open>kParam\<close>, \<open>m\<close>, the three channel pointers
  \<open>lStarOrigin\<close>, \<open>aStarOrigin\<close>, \<open>bStarOrigin\<close>, nor the output members of \<open>Algorithm\<close>. A
  \<open>kParam\<close> that is not positive makes the array sizes or the quotient under the square root
  meaningless: \<open>None\<close>.
\<close>

definition SLIC_new :: slic where
  "SLIC_new =
     \<lparr> alg_input = None, alg_outputIsEnabled = True, alg_outputImage = None, alg_outputSVG = None,
       alg_outputSVGPainter = False, alg_svgGenerator = False, alg_svgFileIOWrapper = False,
       alg_failed = False, alg_finished = False,
       slic_kParam = SLIC_DEFAULT_K, slic_m = SLIC_DEFAULT_M, slic_mSquared = 0, slic_S = 0,
       slic_sSquared = 0, slic_searchHalfWidth = 0, slic_searchHalfHeight = 0,
       slic_lStarOrigin = None, slic_aStarOrigin = None, slic_bStarOrigin = None,
       slic_previousCenters = None, slic_currentCenters = None, slic_clusterSearchWindow = None,
       slic_previousResidualError = Some 0, slic_residualError = Some 0,
       slic_distancesToCenters = None, slic_clusterLabels = None, slic_nPixelsPerCluster = None,
       slic_connectedComponentLabels = None, slic_nConnectedComponents = 0,
       slic_connectedComponentHeap = None, slic_connectedComponentClassifications = None,
       slic_visited = None, slic_unvisitedPixels = None, slic_lastVisitedPixel = 0,
       slic_visitedPx = None, slic_pixelSortingOffsets = None, slic_sortedPixels = None,
       slic_superpixels = None, slic_progress = START, slic_k = 0, slic_iterationCount = 0 \<rparr>"

definition superpixelsDeletable :: "slic \<Rightarrow> bool" where
  "superpixelsDeletable s =
     (case slic_superpixels s of
        None \<Rightarrow> True
      | Some sps \<Rightarrow> slic_kParam s \<le> int (length sps)
                    \<and> list_all (\<lambda>c. c \<noteq> None) (take (nat (slic_kParam s)) sps))"

definition SLIC_cleanup :: "slic \<Rightarrow> slic option" where
  "SLIC_cleanup s =
     (if superpixelsDeletable s
      then Some (Algorithm_cleanup
             ((Algorithm_finalizeOutput s)
                \<lparr> slic_previousCenters := None, slic_currentCenters := None,
                  slic_clusterSearchWindow := None, slic_distancesToCenters := None,
                  slic_clusterLabels := None, slic_nPixelsPerCluster := None,
                  slic_connectedComponentLabels := None, slic_connectedComponentHeap := None,
                  slic_connectedComponentClassifications := None, slic_visited := None,
                  slic_unvisitedPixels := None, slic_visitedPx := None,
                  slic_pixelSortingOffsets := None, slic_sortedPixels := None,
                  slic_superpixels := None \<rparr>))
      else None)"

definition SLIC_initialize :: "freshMemory \<Rightarrow> slic \<Rightarrow> imageData \<Rightarrow> (bool \<times> slic) option" where
  "SLIC_initialize mem s img =
     do {
       (ok, s1) \<leftarrow> Algorithm_initialize SLIC_cleanup s img;
       let s2 = s1\<lparr> alg_failed := \<not> ok \<rparr> in
       if alg_failed s2 then Some (False, s2)
       else
         do {
           inp \<leftarrow> alg_input s2;
           let n = img_nPixels inp; kParam = slic_kParam s2 in
           if kParam \<le> 0 \<or> n < 0 then None
           else
             let S = round (sqrt (real_of_int n / real_of_int kParam)) in
             Some (True,
               s2\<lparr> slic_mSquared := slic_m s2 * slic_m s2,
                   slic_S := S,
                   slic_sSquared := real_of_int (S * S),
                   slic_searchHalfWidth := 0,
                   slic_searchHalfHeight := 0,
                   slic_previousCenters := Some (replicate (nat kParam) blankCenter),
                   slic_currentCenters := Some (replicate (nat kParam) blankCenter),
                   slic_clusterSearchWindow := None,
                   slic_previousResidualError := Some 0,
                   slic_residualError := Some 0,
                   slic_distancesToCenters := Some (newArray n (fm_distancesToCenters mem)),
                   slic_clusterLabels := Some (newArray n (fm_clusterLabels mem)),
                   slic_nPixelsPerCluster := Some (newArray kParam (fm_nPixelsPerCluster mem)),
                   slic_connectedComponentLabels := Some (newArray n (fm_connectedComponentLabels mem)),
                   slic_nConnectedComponents := 0,
                   slic_connectedComponentHeap := Some [],
                   slic_visited := Some (newArray n (fm_visited mem)),
                   slic_unvisitedPixels := Some [],
                   slic_lastVisitedPixel := 0,
                   slic_visitedPx := Some (newArray n (fm_visitedPx mem)),
                   slic_pixelSortingOffsets := Some (newArray kParam (fm_pixelSortingOffsets mem)),
                   slic_sortedPixels := Some (newArray n (fm_sortedPixels mem)),
                   slic_progress := START,
                   slic_k := 0,
                   slic_iterationCount := 0 \<rparr>)
         }
     }"

subsection \<open>Class \<open>SLIC\<close>: stage control\<close>

text \<open>
  \<open>SLIC::getLoopLimit\<close>, and \<open>SLIC::updateKAndProgress\<close> in three parts: \<open>nextStage\<close> is its
  first \<open>switch\<close>, which moves to the next stage, \<open>stageIncrement\<close> its second, which sets the
  size and direction \<open>inc\<close> of the next step, and \<open>updateKAndProgress\<close> the function itself,
  which returns the end of the next step with the object. The \<open>default\<close> branches of
  the source are for values outside the enumeration \<open>Progress\<close>; the datatype has none.
\<close>

definition getLoopLimit :: "slic \<Rightarrow> pxind option" where
  "getLoopLimit s =
     (case slic_progress s of
        START \<Rightarrow> Some 0
      | RGB2LAB \<Rightarrow> Some 0
      | SEED_CENTERS \<Rightarrow> Some (slic_kParam s)
      | K_MEANS_LABEL_PIXELS \<Rightarrow> Some (slic_kParam s)
      | K_MEANS_UPDATE_CENTERS \<Rightarrow> map_option img_nPixels (alg_input s)
      | K_MEANS_ASSESS_ITERATION \<Rightarrow> Some (slic_kParam s)
      | FIND_CONNECTED_COMPONENTS \<Rightarrow> map_option img_nPixels (alg_input s)
      | CLASSIFY_CONNECTED_COMPONENTS \<Rightarrow> Some (slic_kParam s)
      | REASSIGN_CONNECTED_COMPONENTS \<Rightarrow> map_option img_nPixels (alg_input s)
      | SORT_PIXELS_AS_SUPERPIXELS \<Rightarrow> Some 0
      | CREATE_SUPERPIXEL_OBJECTS \<Rightarrow> Some (slic_kParam s)
      | INITIALIZE_OUTPUT \<Rightarrow> Some 0
      | FILL_OUTPUT \<Rightarrow> Some (slic_kParam s)
      | FINALIZE_OUTPUT \<Rightarrow> Some 0
      | END \<Rightarrow> Some 0)"







subsection \<open>Class \<open>SLIC\<close>: the stages\<close>













subsection \<open>Example objects\<close>






section \<open>The k-means loop of SLIC\<close>

text \<open>
  The states of the k-means loop and what the proofs need of them. \<open>buffersOk\<close>: the object has
  its input image, and the buffers that the stages of the loop and the first stage after it
  fill and index have been allocated with at least the size that \<open>SLIC::initialize\<close> gives them.
  \<open>kernelsReturn\<close>: on such an object the three kernels that these stages call return, and
  they write into the arrays they are given, which keep their sizes. \<open>kmeansReady\<close>: an object
  in one of the three stages of the loop, which has neither failed nor finished, with its
  cursor between zero and the loop limit of the stage and at most
  \<open>SLIC_MAX_KMEANS_ITERATIONS - 1\<close> iterations behind it. \<open>kmeansMeasure\<close> is what every call of
  \<open>increment\<close> decreases in the loop: the iterations left, then the stages left in the
  iteration, then the distance of the cursor from the loop limit. \<open>stepKeeps\<close> is what a step
  of a stage leaves alone.
\<close>

definition lenAtLeast :: "'a list option \<Rightarrow> pxind \<Rightarrow> bool" where
  "lenAtLeast arr n = (case arr of None \<Rightarrow> False | Some xs \<Rightarrow> n \<le> int (length xs))"


definition buffersOk :: "slic \<Rightarrow> bool" where
  "buffersOk s =
     (case alg_input s of
        None \<Rightarrow> False
      | Some img \<Rightarrow>
          0 \<le> img_nPixels img \<and> 0 \<le> slic_kParam s
          \<and> lenAtLeast (slic_distancesToCenters s) (img_nPixels img)
          \<and> lenAtLeast (slic_clusterLabels s) (img_nPixels img)
          \<and> lenAtLeast (slic_visited s) (img_nPixels img)
          \<and> lenAtLeast (slic_connectedComponentLabels s) (img_nPixels img)
          \<and> lenAtLeast (slic_nPixelsPerCluster s) (slic_kParam s)
          \<and> lenAtLeast (slic_currentCenters s) (slic_kParam s)
          \<and> lenAtLeast (slic_previousCenters s) (slic_kParam s))"


definition inKMeans :: "Progress \<Rightarrow> bool" where
  "inKMeans p = (p = K_MEANS_LABEL_PIXELS \<or> p = K_MEANS_UPDATE_CENTERS \<or> p = K_MEANS_ASSESS_ITERATION)"








definition exampleMemory :: freshMemory where
  "exampleMemory =
     \<lparr> fm_distancesToCenters = (\<lambda>i. Some 0), fm_clusterLabels = (\<lambda>i. 0),
       fm_nPixelsPerCluster = (\<lambda>i. 0), fm_connectedComponentLabels = (\<lambda>i. 0),
       fm_visited = (\<lambda>i. False), fm_visitedPx = (\<lambda>i. 0), fm_pixelSortingOffsets = (\<lambda>i. 0),
       fm_sortedPixels = (\<lambda>i. 0) \<rparr>"

definition initializedExample :: slic where
  "initializedExample =
     (case SLIC_initialize exampleMemory SLIC_new exampleImage of
        Some (ok, s) \<Rightarrow> s
      | None \<Rightarrow> SLIC_new)"


section \<open>The Local-Data Filter: construction and initialization\<close>


datatype LdfProgress =
    LDF_START | LDF_GENERATE_SUPERPIXELS | LDF_RGB2LAB | LDF_COLLECT_STATISTICS
  | LDF_NORMALIZE_STATISTICS | LDF_CONSTRUCT_HISTOGRAM | LDF_CHOOSE_OTSU_THRESHOLD
  | LDF_FILTER_SUPERPIXELS | LDF_INITIALIZE_OUTPUT | LDF_FILL_OUTPUT | LDF_FINALIZE_OUTPUT | LDF_END



subsection \<open>The constructors\<close>


subsection \<open>\<open>cleanup\<close>\<close>



subsection \<open>\<open>initialize\<close>\<close>






subsection \<open>Example images\<close>



chapter \<open>Properties\<close>

section \<open>The counting sort\<close>

lemma rd_Some: "0 \<le> i \<Longrightarrow> i < int (length xs) \<Longrightarrow> rd xs i = Some (xs ! nat i)"
  by (simp add: rd_def)

lemma wr_Some: "0 \<le> i \<Longrightarrow> i < int (length xs) \<Longrightarrow> wr xs i v = Some (xs[nat i := v])"
  by (simp add: wr_def)


lemma sortingOffsetsLoop_inv:
  "\<lbrakk> 1 \<le> i; i \<le> kParam; length npc = nat kParam; length offs = nat kParam;
     \<forall>j<nat i. offs ! j = startOf npc (Suc j) \<rbrakk>
   \<Longrightarrow> \<exists>offs'. sortingOffsetsLoop i kParam npc offs = Some offs' \<and> length offs' = nat kParam
        \<and> (\<forall>j<nat kParam. offs' ! j = startOf npc (Suc j))"
proof (induction i kParam npc offs rule: sortingOffsetsLoop.induct)
  case (1 i kParam npc offs)
  show ?case
  proof (cases "i < kParam")
    case False
    with "1.prems" have "i = kParam" by simp
    with "1.prems" show ?thesis by (subst sortingOffsetsLoop.simps) simp
  next
    case True
    let ?n = "npc ! nat i" and ?p = "offs ! nat (i - 1)"
    let ?offs' = "offs[nat i := ?n + ?p]"
    have r1: "rd npc i = Some ?n" using True "1.prems" by (simp add: rd_def)
    have r2: "rd offs (i - 1) = Some ?p" using True "1.prems" by (simp add: rd_def)
    have w: "wr offs i (?n + ?p) = Some ?offs'" using True "1.prems" by (simp add: wr_def)
    have p: "?p = startOf npc (nat i)"
    proof -
      have "nat (i - 1) < nat i" using "1.prems" by simp
      then have "offs ! nat (i - 1) = startOf npc (Suc (nat (i - 1)))" using "1.prems" by blast
      moreover have "Suc (nat (i - 1)) = nat i" using "1.prems" by simp
      ultimately show ?thesis by simp
    qed
    have inv: "\<forall>j<nat (i + 1). ?offs' ! j = startOf npc (Suc j)"
    proof (intro allI impI)
      fix j assume j: "j < nat (i + 1)"
      show "?offs' ! j = startOf npc (Suc j)"
      proof (cases "j = nat i")
        case True
        have "nat i < length offs" using \<open>i < kParam\<close> "1.prems" by simp
        then have "?offs' ! j = ?n + ?p" using True by simp
        also have "\<dots> = startOf npc (Suc (nat i))" using p by (simp add: startOf_def)
        finally show ?thesis using True by simp
      next
        case False
        then have "j < nat i" using j "1.prems" by linarith
        then show ?thesis using False "1.prems" by simp
      qed
    qed
    have "\<exists>offs''. sortingOffsetsLoop (i + 1) kParam npc ?offs' = Some offs'' \<and> length offs'' = nat kParam
        \<and> (\<forall>j<nat kParam. offs'' ! j = startOf npc (Suc j))"
      using "1.IH"[OF True r1 r2 w] True "1.prems" inv by simp
    then show ?thesis
      using True r1 r2 w by (subst sortingOffsetsLoop.simps) simp
  qed
qed

lemma initSortingOffsets_ok:
  assumes "1 \<le> kParam" "length npc = nat kParam" "length offs = nat kParam"
  shows "\<exists>offs'. initSortingOffsets kParam npc offs = Some offs' \<and> length offs' = nat kParam
        \<and> (\<forall>j<nat kParam. offs' ! j = startOf npc (Suc j))"
proof -
  let ?o = "offs[0 := npc ! 0]"
  have r: "rd npc 0 = Some (npc ! 0)" using assms by (simp add: rd_def)
  have w: "wr offs 0 (npc ! 0) = Some ?o" using assms by (simp add: wr_def)
  have "\<forall>j<nat 1. ?o ! j = startOf npc (Suc j)" using assms by (simp add: startOf_def)
  from sortingOffsetsLoop_inv[OF _ assms(1) assms(2) _ this]
  show ?thesis using assms r w by (simp add: initSortingOffsets_def)
qed

lemma lblCount_0 [simp]: "lblCount L 0 j = 0"
  by (simp add: lblCount_def)

lemma lblCount_Suc: "lblCount L (Suc p) j = lblCount L p j + (if L ! p = int j then 1 else 0)"
  by (simp add: lblCount_def)

lemma lblCount_mono: "p \<le> q \<Longrightarrow> lblCount L p j \<le> lblCount L q j"
  by (induction q) (auto simp: lblCount_Suc le_Suc_eq)

lemma lblCount_less: "p < q \<Longrightarrow> L ! p = int j \<Longrightarrow> lblCount L p j < lblCount L q j"
  using lblCount_mono[of "Suc p" q L j] by (simp add: lblCount_Suc)

lemma lblCount_total:
  "validLabels kParam L \<Longrightarrow> p \<le> length L \<Longrightarrow> (\<Sum>j<nat kParam. lblCount L p j) = p"
proof (induction p)
  case 0
  then show ?case by simp
next
  case (Suc p)
  then have "L ! p \<in> set L" by simp
  with Suc.prems have v: "0 \<le> L ! p" "L ! p < kParam" by (auto simp: validLabels_def)
  have "(\<Sum>j<nat kParam. lblCount L (Suc p) j)
        = (\<Sum>j<nat kParam. lblCount L p j) + (\<Sum>j<nat kParam. if L ! p = int j then 1 else 0)"
    by (simp add: lblCount_Suc sum.distrib)
  also have "(\<Sum>j<nat kParam. if L ! p = int j then 1 else 0)
        = (\<Sum>j<nat kParam. if j = nat (L ! p) then 1 else (0::nat))"
    using v by (intro sum.cong) auto
  also have "\<dots> = 1" using v by (simp add: sum.delta)
  finally show ?case using Suc by simp
qed

lemma startOf_0 [simp]: "startOf npc 0 = 0"
  by (simp add: startOf_def)

lemma startOf_Suc: "startOf npc (Suc j) = startOf npc j + npc ! j"
  by (simp add: startOf_def)

lemma startOf_counts:
  "countsMatch kParam L npc \<Longrightarrow> j \<le> nat kParam \<Longrightarrow>
   startOf npc j = int (\<Sum>i<j. lblCount L (length L) i)"
  by (induction j) (auto simp: startOf_Suc countsMatch_def)

lemma startOf_mono:
  "countsMatch kParam L npc \<Longrightarrow> i \<le> j \<Longrightarrow> j \<le> nat kParam \<Longrightarrow> startOf npc i \<le> startOf npc j"
proof (induction j)
  case 0
  then show ?case by simp
next
  case (Suc j)
  then show ?case by (cases "i = Suc j") (auto simp: startOf_Suc countsMatch_def)
qed

lemma startOf_total:
  "validLabels kParam L \<Longrightarrow> countsMatch kParam L npc \<Longrightarrow> startOf npc (nat kParam) = int (length L)"
  by (simp add: startOf_counts lblCount_total)

lemma posOf_bounds:
  assumes v: "validLabels kParam L" and c: "countsMatch kParam L npc" and p: "p < length L"
  shows "startOf npc (nat (L ! p)) \<le> posOf L npc p"
    and "posOf L npc p < startOf npc (Suc (nat (L ! p)))"
    and "0 \<le> posOf L npc p" and "posOf L npc p < int (length L)"
proof -
  let ?j = "nat (L ! p)"
  have "L ! p \<in> set L" using p by simp
  with v have lp: "0 \<le> L ! p" "L ! p < kParam" by (auto simp: validLabels_def)
  then have j: "?j < nat kParam" "L ! p = int ?j" by auto
  show lo: "startOf npc ?j \<le> posOf L npc p" by (simp add: posOf_def)
  have "lblCount L p ?j < lblCount L (length L) ?j" using lblCount_less[OF p j(2)] .
  then show hi: "posOf L npc p < startOf npc (Suc ?j)"
    using c j by (simp add: posOf_def startOf_Suc countsMatch_def)
  have "0 \<le> startOf npc ?j" using startOf_mono[OF c, of 0 ?j] j by simp
  with lo show "0 \<le> posOf L npc p" by simp
  have "startOf npc (Suc ?j) \<le> startOf npc (nat kParam)"
    using startOf_mono[OF c, of "Suc ?j" "nat kParam"] j by simp
  with hi show "posOf L npc p < int (length L)" using startOf_total[OF v c] by simp
qed

lemma posOf_inj_aux:
  assumes v: "validLabels kParam L" and c: "countsMatch kParam L npc"
    and p: "p < q" "q < length L"
  shows "posOf L npc p \<noteq> posOf L npc q"
proof (cases "L ! p = L ! q")
  case True
  have "L ! p \<in> set L" using p by simp
  with v have "0 \<le> L ! p" by (auto simp: validLabels_def)
  then have "L ! p = int (nat (L ! p))" by simp
  from lblCount_less[OF p(1) this] show ?thesis using True by (simp add: posOf_def)
next
  case False
  have pl: "p < length L" using p by simp
  have "L ! p \<in> set L" "L ! q \<in> set L" using p by simp_all
  with v have r: "0 \<le> L ! p" "L ! p < kParam" "0 \<le> L ! q" "L ! q < kParam"
    by (auto simp: validLabels_def)
  show ?thesis
  proof (cases "L ! p < L ! q")
    case True
    then have "Suc (nat (L ! p)) \<le> nat (L ! q)" using r by simp
    then have "startOf npc (Suc (nat (L ! p))) \<le> startOf npc (nat (L ! q))"
      using startOf_mono[OF c] r by simp
    then show ?thesis
      using posOf_bounds(2)[OF v c pl] posOf_bounds(1)[OF v c p(2)] by simp
  next
    case F: False
    with False have "L ! q < L ! p" by simp
    then have "Suc (nat (L ! q)) \<le> nat (L ! p)" using r by simp
    then have "startOf npc (Suc (nat (L ! q))) \<le> startOf npc (nat (L ! p))"
      using startOf_mono[OF c] r by simp
    then show ?thesis
      using posOf_bounds(2)[OF v c p(2)] posOf_bounds(1)[OF v c pl] by simp
  qed
qed

lemma posOf_inj:
  assumes "validLabels kParam L" "countsMatch kParam L npc" "p < length L" "q < length L" "p \<noteq> q"
  shows "posOf L npc p \<noteq> posOf L npc q"
proof (cases "p < q")
  case True
  then show ?thesis using posOf_inj_aux[OF assms(1,2)] assms by simp
next
  case False
  then have "q < p" using assms by simp
  then show ?thesis using posOf_inj_aux[OF assms(1,2), of q p] assms by simp
qed

lemma sortPixels_inv:
  "\<lbrakk> validLabels kParam L; countsMatch kParam L npc; 0 \<le> endPx; - 1 \<le> k; k < int (length L);
     sortInv kParam L npc k offs srt \<rbrakk>
   \<Longrightarrow> \<exists>offs' srt'.
         sortPixelsIntoSuperpixels endPx L (k, offs, srt) = Some (min k (endPx - 1), offs', srt')
         \<and> sortInv kParam L npc (min k (endPx - 1)) offs' srt'"
proof (induction endPx L "(k, offs, srt)" arbitrary: k offs srt rule: sortPixelsIntoSuperpixels.induct)
  case (1 endPx L k offs srt)
  note v = "1.prems"(1) and c = "1.prems"(2)
  show ?case
  proof (cases "k \<ge> endPx")
    case False
    then have "min k (endPx - 1) = k" by simp
    with False "1.prems" show ?thesis by (subst sortPixelsIntoSuperpixels.simps) simp
  next
    case True
    with "1.prems" have k0: "0 \<le> k" by simp
    let ?p = "nat k"
    have pl: "?p < length L" using k0 "1.prems" by simp
    let ?l = "L ! ?p" let ?j = "nat ?l"
    have "?l \<in> set L" using pl by simp
    with v have lr: "0 \<le> ?l" "?l < kParam" by (auto simp: validLabels_def)
    then have j: "?j < nat kParam" "?l = int ?j" by auto
    from "1.prems"(6) have len: "length offs = nat kParam" "length srt = length L"
      and io: "\<forall>j<nat kParam. offs ! j = startOf npc j + int (lblCount L (nat (k + 1)) j)"
      and isrt: "\<forall>p<length L. k < int p \<longrightarrow> srt ! nat (posOf L npc p) = int p"
      by (simp_all add: sortInv_def)
    have k1: "nat (k + 1) = Suc ?p" using k0 by simp
    have oj: "offs ! ?j = posOf L npc ?p + 1"
      using io j by (simp add: k1 lblCount_Suc posOf_def)
    let ?offs' = "offs[?j := posOf L npc ?p]"
    let ?srt' = "srt[nat (posOf L npc ?p) := k]"
    have r1: "rd L k = Some ?l" using k0 pl by (simp add: rd_def)
    have r2: "rd offs ?l = Some (posOf L npc ?p + 1)" using lr len oj by (simp add: rd_def)
    have w1: "wr offs ?l (posOf L npc ?p + 1 - 1) = Some ?offs'" using lr len by (simp add: wr_def)
    have w2: "wr srt (posOf L npc ?p + 1 - 1) k = Some ?srt'"
      using posOf_bounds(3,4)[OF v c pl] len by (simp add: wr_def)
    have inv': "sortInv kParam L npc (k - 1) ?offs' ?srt'"
      unfolding sortInv_def
    proof (intro conjI allI impI)
      show "length ?offs' = nat kParam" using len by simp
      show "length ?srt' = length L" using len by simp
    next
      fix i assume i: "i < nat kParam"
      have k2: "nat (k - 1 + 1) = ?p" by simp
      show "?offs' ! i = startOf npc i + int (lblCount L (nat (k - 1 + 1)) i)"
      proof (cases "i = ?j")
        case True
        then show ?thesis using len j by (simp add: k2 posOf_def)
      next
        case False
        then have "L ! ?p \<noteq> int i" using j by simp
        then show ?thesis using False io i by (simp add: k1 k2 lblCount_Suc)
      qed
    next
      fix p assume p: "p < length L" "k - 1 < int p"
      show "?srt' ! nat (posOf L npc p) = int p"
      proof (cases "p = ?p")
        case True
        then show ?thesis using posOf_bounds(3,4)[OF v c pl] len k0 by simp
      next
        case False
        then have "k < int p" using p by linarith
        then have old: "srt ! nat (posOf L npc p) = int p" using isrt p by simp
        have "posOf L npc p \<noteq> posOf L npc ?p" using posOf_inj[OF v c p(1) pl False] .
        then have "nat (posOf L npc p) \<noteq> nat (posOf L npc ?p)"
          using posOf_bounds(3)[OF v c pl] posOf_bounds(3)[OF v c p(1)] by simp
        then show ?thesis using old by simp
      qed
    qed
    have "\<exists>offs' srt'.
         sortPixelsIntoSuperpixels endPx L (k - 1, ?offs', ?srt') = Some (min (k - 1) (endPx - 1), offs', srt')
         \<and> sortInv kParam L npc (min (k - 1) (endPx - 1)) offs' srt'"
      using "1.hyps"[OF True r1 r2 w1 w2 v c "1.prems"(3) _ _ inv'] k0 "1.prems"(5) by simp
    moreover have "min (k - 1) (endPx - 1) = min k (endPx - 1)" using True by simp
    ultimately show ?thesis
      using True r1 r2 w1 w2 by (subst sortPixelsIntoSuperpixels.simps) simp
  qed
qed

lemma sortStage_inv:
  "\<lbrakk> validLabels kParam L; countsMatch kParam L npc; 1 \<le> kParam; pixelCount = int (length L);
     0 < pixelCount; - 1 \<le> k; k < pixelCount; length offs = nat kParam; length srt = length L;
     k = pixelCount - 1 \<or> sortInv kParam L npc k offs srt \<rbrakk>
   \<Longrightarrow> \<exists>offs' srt'. sortStage pixelCount kParam L npc (k, offs, srt) = Some (offs', srt')
          \<and> sortInv kParam L npc (- 1) offs' srt'"
proof (induction pixelCount kParam L npc "(k, offs, srt)" arbitrary: k offs srt rule: sortStage.induct)
  case (1 pixelCount kParam L npc k offs srt)
  note v = "1.prems"(1) and c = "1.prems"(2)
  show ?case
  proof (cases "k < 0")
    case True
    have "0 < length L" using "1.prems"(4,5) by simp
    with True "1.prems"(4) have "k \<noteq> pixelCount - 1" by linarith
    moreover have "k = - 1" using True "1.prems"(6) by simp
    ultimately have "k = - 1" "k \<noteq> pixelCount - 1" by simp_all
    with "1.prems"(10) True show ?thesis by (subst sortStage.simps) simp
  next
    case False
    define offs1 where "offs1 = (if k = pixelCount - 1 then the (initSortingOffsets kParam npc offs) else offs)"
    have o1: "(if k = pixelCount - 1 then initSortingOffsets kParam npc offs else Some offs) = Some offs1"
      and i1: "sortInv kParam L npc k offs1 srt"
    proof -
      show "(if k = pixelCount - 1 then initSortingOffsets kParam npc offs else Some offs) = Some offs1"
        using initSortingOffsets_ok[OF "1.prems"(3) _ "1.prems"(8), of npc] c
        by (auto simp: offs1_def countsMatch_def)
      show "sortInv kParam L npc k offs1 srt"
      proof (cases "k = pixelCount - 1")
        case False
        then show ?thesis using "1.prems"(10) by (simp add: offs1_def)
      next
        case True
        obtain e where e: "initSortingOffsets kParam npc offs = Some e" "length e = nat kParam"
          "\<forall>j<nat kParam. e ! j = startOf npc (Suc j)"
          using initSortingOffsets_ok[OF "1.prems"(3) _ "1.prems"(8), of npc] c
          by (auto simp: countsMatch_def)
        have "nat (k + 1) = length L" using True "1.prems" by simp
        then show ?thesis using True e c "1.prems"(4,9)
          by (auto simp: offs1_def sortInv_def startOf_Suc countsMatch_def)
      qed
    qed
    have e0: "0 \<le> sortIncEnd k" by (simp add: sortIncEnd_def Let_def)
    have ek: "sortIncEnd k \<le> k" using False by (simp add: sortIncEnd_def Let_def SLIC_PIXEL_GRANULARITY_def)
    from sortPixels_inv[OF v c e0 "1.prems"(6) _ i1] "1.prems"(4,7)
    obtain o2 s2 where
      s: "sortPixelsIntoSuperpixels (sortIncEnd k) L (k, offs1, srt) = Some (sortIncEnd k - 1, o2, s2)"
      and i2: "sortInv kParam L npc (sortIncEnd k - 1) o2 s2"
      using ek by (auto simp: min_def)
    have "\<exists>offs' srt'. sortStage pixelCount kParam L npc (sortIncEnd k - 1, o2, s2) = Some (offs', srt')
          \<and> sortInv kParam L npc (- 1) offs' srt'"
      using "1.hyps"[OF False o1 s v c "1.prems"(3,4,5)] e0 ek "1.prems"(7) i2
      by (simp add: sortInv_def)
    then show ?thesis using False o1 s by (subst sortStage.simps) simp
  qed
qed

lemma filter_upt_nth:
  "i < length (filter P [0..<n]) \<Longrightarrow>
   P (filter P [0..<n] ! i) \<and> filter P [0..<n] ! i < n \<and>
   length (filter P [0..<filter P [0..<n] ! i]) = i"
proof (induction n)
  case 0
  then show ?case by simp
next
  case (Suc n)
  show ?case
  proof (cases "i < length (filter P [0..<n])")
    case True
    then have "filter P [0..<Suc n] ! i = filter P [0..<n] ! i" by (simp add: nth_append)
    with Suc.IH[OF True] show ?thesis by simp
  next
    case False
    with Suc.prems have "P n" "i = length (filter P [0..<n])" by (auto split: if_splits)
    then show ?thesis by (simp add: nth_append)
  qed
qed

lemma sortedBucket_naiveScan:
  assumes v: "validLabels kParam L" and c: "countsMatch kParam L npc"
    and inv: "sortInv kParam L npc (- 1) offs srt" and j: "j < nat kParam"
  shows "sortedBucket offs npc srt j = naiveScan L (int j)"
proof (rule nth_equalityI)
  from inv have len: "length srt = length L" and oj: "offs ! j = startOf npc j"
    and isrt: "\<forall>p<length L. srt ! nat (posOf L npc p) = int p"
    using j by (simp_all add: sortInv_def)
  have nj: "npc ! j = int (lblCount L (length L) j)" using c j by (simp add: countsMatch_def)
  have s0: "0 \<le> startOf npc j" using startOf_mono[OF c, of 0 j] j by simp
  have "startOf npc (Suc j) \<le> startOf npc (nat kParam)"
    using startOf_mono[OF c, of "Suc j" "nat kParam"] j by simp
  then have fit: "startOf npc j + npc ! j \<le> int (length L)"
    using startOf_total[OF v c] by (simp add: startOf_Suc)
  have lb: "length (sortedBucket offs npc srt j) = lblCount L (length L) j"
    using fit s0 nj oj len by (simp add: sortedBucket_def)
  show "length (sortedBucket offs npc srt j) = length (naiveScan L (int j))"
    using lb by (simp add: naiveScan_def lblCount_def)
  fix i assume "i < length (sortedBucket offs npc srt j)"
  then have i: "i < lblCount L (length L) j" using lb by simp
  let ?F = "filter (\<lambda>p. L ! p = int j) [0..<length L]"
  let ?p = "?F ! i"
  from i have fi: "i < length ?F" by (simp add: lblCount_def)
  from filter_upt_nth[OF fi]
  have p: "L ! ?p = int j" "?p < length L" "lblCount L ?p j = i" by (simp_all add: lblCount_def)
  have "posOf L npc ?p = startOf npc j + int i" using p by (simp add: posOf_def)
  then have "srt ! nat (startOf npc j + int i) = int ?p" using isrt p(2) by metis
  moreover have "nat (startOf npc j + int i) = nat (startOf npc j) + i" using s0 by simp
  moreover have "sortedBucket offs npc srt j ! i = srt ! (nat (startOf npc j) + i)"
    using i nj oj fit s0 len by (simp add: sortedBucket_def)
  moreover have "naiveScan L (int j) ! i = int ?p" using fi by (simp add: naiveScan_def)
  ultimately show "sortedBucket offs npc srt j ! i = naiveScan L (int j) ! i" by simp
qed

lemma sortedBucket_tiling_aux:
  assumes v: "validLabels kParam L" and c: "countsMatch kParam L npc"
    and inv: "sortInv kParam L npc (- 1) offs srt"
  shows "m \<le> nat kParam \<Longrightarrow> concat (map (sortedBucket offs npc srt) [0..<m]) = take (nat (startOf npc m)) srt"
proof (induction m)
  case 0
  then show ?case by simp
next
  case (Suc m)
  then have m: "m < nat kParam" by simp
  from inv m have om: "offs ! m = startOf npc m" by (simp add: sortInv_def)
  have s0: "0 \<le> startOf npc m" using startOf_mono[OF c, of 0 m] m by simp
  have n0: "0 \<le> npc ! m" using c m by (simp add: countsMatch_def)
  have "nat (startOf npc (Suc m)) = nat (startOf npc m) + nat (npc ! m)"
    using s0 n0 by (simp add: startOf_Suc nat_add_distrib)
  then show ?case using Suc m om by (simp add: sortedBucket_def take_add)
qed

lemma sortedBucket_tiling:
  assumes v: "validLabels kParam L" and c: "countsMatch kParam L npc"
    and inv: "sortInv kParam L npc (- 1) offs srt"
  shows "concat (map (sortedBucket offs npc srt) [0..<nat kParam]) = srt"
proof -
  from inv have "length srt = length L" by (simp add: sortInv_def)
  then show ?thesis
    using sortedBucket_tiling_aux[OF v c inv, of "nat kParam"] startOf_total[OF v c] by simp
qed

lemma mset_filter_disj:
  "(\<And>x. x \<in> set xs \<Longrightarrow> \<not> (P x \<and> Q x)) \<Longrightarrow>
   mset (filter (\<lambda>x. P x \<or> Q x) xs) = mset (filter P xs) + mset (filter Q xs)"
  by (induction xs) auto

lemma naiveScan_partition_aux:
  assumes v: "validLabels kParam L"
  shows "mset (concat (map (\<lambda>j. naiveScan L (int j)) [0..<m]))
         = mset (map int (filter (\<lambda>p. L ! p < int m) [0..<length L]))"
proof (induction m)
  case 0
  have "\<And>p. p < length L \<Longrightarrow> \<not> L ! p < 0"
  proof -
    fix p assume "p < length L"
    then have "L ! p \<in> set L" by simp
    with v show "\<not> L ! p < 0" by (auto simp: validLabels_def)
  qed
  then have "filter (\<lambda>p. L ! p < 0) [0..<length L] = []" by (auto simp: filter_empty_conv)
  then show ?case by simp
next
  case (Suc m)
  have e: "filter (\<lambda>p. L ! p < int (Suc m)) [0..<length L]
        = filter (\<lambda>p. L ! p < int m \<or> L ! p = int m) [0..<length L]"
    by (rule filter_cong) auto
  have d: "mset (filter (\<lambda>p. L ! p < int m \<or> L ! p = int m) [0..<length L])
        = mset (filter (\<lambda>p. L ! p < int m) [0..<length L])
          + mset (filter (\<lambda>p. L ! p = int m) [0..<length L])"
    by (rule mset_filter_disj) auto
  have "mset (map int (filter (\<lambda>p. L ! p < int (Suc m)) [0..<length L]))
        = image_mset int (mset (filter (\<lambda>p. L ! p < int (Suc m)) [0..<length L]))"
    by (simp only: mset_map)
  also have "\<dots> = image_mset int (mset (filter (\<lambda>p. L ! p < int m) [0..<length L]))
          + image_mset int (mset (filter (\<lambda>p. L ! p = int m) [0..<length L]))"
    by (simp only: e d image_mset_union)
  also have "\<dots> = mset (map int (filter (\<lambda>p. L ! p < int m) [0..<length L]))
          + mset (naiveScan L (int m))"
    by (simp only: naiveScan_def mset_map)
  finally have "mset (map int (filter (\<lambda>p. L ! p < int (Suc m)) [0..<length L]))
        = mset (map int (filter (\<lambda>p. L ! p < int m) [0..<length L]))
          + mset (naiveScan L (int m))" .
  with Suc show ?case by simp
qed

lemma naiveScan_partition:
  assumes v: "validLabels kParam L"
  shows "mset (concat (map (\<lambda>j. naiveScan L (int j)) [0..<nat kParam])) = mset (map int [0..<length L])"
proof -
  have "\<And>p. p < length L \<Longrightarrow> L ! p < int (nat kParam)"
  proof -
    fix p assume "p < length L"
    then have "L ! p \<in> set L" by simp
    with v show "L ! p < int (nat kParam)" by (auto simp: validLabels_def)
  qed
  then have "filter (\<lambda>p. L ! p < int (nat kParam)) [0..<length L] = [0..<length L]"
    by (auto simp: filter_id_conv)
  then show ?thesis using naiveScan_partition_aux[OF v, of "nat kParam"] by simp
qed

lemma naiveScan_ascending: "sorted_wrt (<) (naiveScan L j)"
proof -
  have "sorted_wrt (<) (filter (\<lambda>p. L ! p = j) [0..<length L])"
    by (rule sorted_wrt_filter) simp
  then show ?thesis by (simp add: naiveScan_def sorted_wrt_map)
qed



text \<open>
  Claim C3. For every label assignment whose per-label pixel counts are the recorded
  cluster sizes, the sorting stage (the prefix-sum offset table, then the downward scan
  that fills \<open>sortedPixels\<close>, run in increments of \<open>SLIC_PIXEL_GRANULARITY\<close> pixels)
  returns without leaving a buffer, and the bucket of every cluster is exactly the naive
  scan of its label: the same pixels in ascending index order (the sort is stable). The
  buckets concatenated in label order are \<open>sortedPixels\<close>, which holds every pixel index
  exactly once.
\<close>

theorem counting_sort_matches_naive_scan:
  assumes "validLabels kParam clusterLabels"
    and "countsMatch kParam clusterLabels nPixelsPerCluster"
    and "1 \<le> kParam" and "pixelCount = int (length clusterLabels)" and "0 < pixelCount"
    and "length offs = nat kParam" and "length sortedPixels = length clusterLabels"
  shows "\<exists>offs' sorted'.
           sortStage pixelCount kParam clusterLabels nPixelsPerCluster (pixelCount - 1, offs, sortedPixels)
             = Some (offs', sorted')
         \<and> (\<forall>j<nat kParam. sortedBucket offs' nPixelsPerCluster sorted' j = naiveScan clusterLabels (int j))
         \<and> concat (map (sortedBucket offs' nPixelsPerCluster sorted') [0..<nat kParam]) = sorted'
         \<and> mset sorted' = mset (map int [0..<length clusterLabels])
         \<and> (\<forall>j<nat kParam. sorted_wrt (<) (sortedBucket offs' nPixelsPerCluster sorted' j))"
proof -
  from sortStage_inv[OF assms(1,2,3,4,5) _ _ assms(6,7), of "pixelCount - 1"]
  obtain offs' sorted' where
    run: "sortStage pixelCount kParam clusterLabels nPixelsPerCluster (pixelCount - 1, offs, sortedPixels)
             = Some (offs', sorted')"
    and inv: "sortInv kParam clusterLabels nPixelsPerCluster (- 1) offs' sorted'"
    using assms(5) by auto
  have b: "\<forall>j<nat kParam. sortedBucket offs' nPixelsPerCluster sorted' j = naiveScan clusterLabels (int j)"
    using sortedBucket_naiveScan[OF assms(1,2) inv] by simp
  have t: "concat (map (sortedBucket offs' nPixelsPerCluster sorted') [0..<nat kParam]) = sorted'"
    using sortedBucket_tiling[OF assms(1,2) inv] .
  have "map (sortedBucket offs' nPixelsPerCluster sorted') [0..<nat kParam]
        = map (\<lambda>j. naiveScan clusterLabels (int j)) [0..<nat kParam]"
    using b by simp
  then have m: "mset sorted' = mset (map int [0..<length clusterLabels])"
    using t naiveScan_partition[OF assms(1)] by metis
  have a: "\<forall>j<nat kParam. sorted_wrt (<) (sortedBucket offs' nPixelsPerCluster sorted' j)"
    using b naiveScan_ascending by simp
  from run b t m a show ?thesis by blast
qed

theorem counting_sort_matches_naive_scan_witness:
  "validLabels 3 [2, 0, 2, 1, 0, 2] \<and> countsMatch 3 [2, 0, 2, 1, 0, 2] [2, 1, 3]
   \<and> (\<exists>offs' sorted'.
           sortStage 6 3 [2, 0, 2, 1, 0, 2] [2, 1, 3] (6 - 1, [9, 9, 9], [7, 7, 7, 7, 7, 7])
             = Some (offs', sorted')
         \<and> (\<forall>j<nat 3. sortedBucket offs' [2, 1, 3] sorted' j = naiveScan [2, 0, 2, 1, 0, 2] (int j))
         \<and> concat (map (sortedBucket offs' [2, 1, 3] sorted') [0..<nat 3]) = sorted'
         \<and> mset sorted' = mset (map int [0..<length [2, 0, 2, 1, 0, 2 :: int]])
         \<and> (\<forall>j<nat 3. sorted_wrt (<) (sortedBucket offs' [2, 1, 3] sorted' j)))"
proof -
  have v: "validLabels 3 [2, 0, 2, 1, 0, 2]" by (simp add: validLabels_def)
  have c: "countsMatch 3 [2, 0, 2, 1, 0, 2] [2, 1, 3]"
    by (simp add: countsMatch_def lblCount_def eval_nat_numeral less_Suc_eq upt_rec)
  from counting_sort_matches_naive_scan[OF v c, of 6 "[9, 9, 9]" "[7, 7, 7, 7, 7, 7]"] v c
  show ?thesis by simp
qed

section \<open>The superpixel construction\<close>

lemma kToXY_valid:
  assumes "0 < w" "0 \<le> k"
  shows "kToXY w k = (k mod w, k div w)"
proof (cases "k = 0")
  case True
  then show ?thesis by (simp add: kToXY_def)
next
  case False
  with assms have "sgn k = 1" "\<bar>k\<bar> = k" "sgn w = 1" "\<bar>w\<bar> = w" by simp_all
  then show ?thesis by (simp add: kToXY_def signed_divide_int_def signed_modulo_int_def)
qed

lemma pixel_coords:
  fixes w h k :: int
  assumes "0 < w" "0 < h" "0 \<le> k" "k < w * h"
  shows "0 \<le> k mod w" "k mod w < w" "0 \<le> k div w" "k div w < h"
proof -
  show "0 \<le> k mod w" using assms by simp
  show "k mod w < w" using assms by simp
  show "0 \<le> k div w" using assms by (simp add: pos_imp_zdiv_nonneg_iff)
  show "k div w < h"
  proof (rule ccontr)
    assume "\<not> k div w < h"
    then have "h * w \<le> (k div w) * w" using assms(1) by (simp add: mult_right_mono)
    also have "(k div w) * w = k - k mod w" by (simp add: minus_mod_eq_div_mult)
    also have "\<dots> \<le> k" using assms(1) by simp
    finally show False using assms(4) by (simp add: mult.commute)
  qed
qed

lemma xy_index_bounds:
  fixes w h x y :: int
  assumes "0 < w" "0 \<le> x" "x < w" "0 \<le> y" "y < h"
  shows "0 \<le> w * y + x" "w * y + x < w * h"
proof -
  have "0 \<le> w * y" using assms by simp
  then show "0 \<le> w * y + x" using assms by simp
  have "w * y + x < w * y + w" using assms by simp
  also have "\<dots> = w * (y + 1)" by (simp add: algebra_simps)
  also have "\<dots> \<le> w * h" using assms by (intro mult_left_mono) simp_all
  finally show "w * y + x < w * h" .
qed

lemma fourNeighbours_valid:
  assumes "0 < w" "0 < h" "0 \<le> k" "k < w * h" "q \<in> set (fourNeighbours w h k)"
  shows "0 \<le> q \<and> q < w * h"
proof -
  note c = pixel_coords[OF assms(1-4)]
  from assms(5) have "q = w * (k div w) + (k mod w + 1) \<and> k mod w + 1 < w
      \<or> q = w * (k div w - 1) + k mod w \<and> 0 \<le> k div w - 1
      \<or> q = w * (k div w) + (k mod w - 1) \<and> 0 \<le> k mod w - 1
      \<or> q = w * (k div w + 1) + k mod w \<and> k div w + 1 < h"
    by (auto simp: fourNeighbours_def kToXY_valid[OF assms(1,3)] xyToK_def split: if_splits)
  then show ?thesis
    using xy_index_bounds[OF assms(1), of "k mod w + 1" "k div w" h]
          xy_index_bounds[OF assms(1), of "k mod w" "k div w - 1" h]
          xy_index_bounds[OF assms(1), of "k mod w - 1" "k div w" h]
          xy_index_bounds[OF assms(1), of "k mod w" "k div w + 1" h] c
    by auto
qed

lemma differsFromNeighbour_ok:
  "\<forall>q \<in> set qs. 0 \<le> q \<and> q < int (length labels) \<Longrightarrow>
   differsFromNeighbour label labels qs = Some (list_ex (\<lambda>q. label \<noteq> labels ! nat q) qs)"
  by (induction qs) (auto simp: rd_def)

lemma isBoundaryPixel_spec:
  assumes w: "0 < img_w img" and h: "0 < img_h img"
    and n: "int (length labels) = img_w img * img_h img"
    and k: "0 \<le> px" "px < img_w img * img_h img"
  shows "isBoundaryPixel img labels px = Some (specBoundary (img_w img) (img_h img) labels px)"
proof -
  let ?w = "img_w img" and ?h = "img_h img"
  let ?x = "px mod ?w" and ?y = "px div ?w"
  note c = pixel_coords[OF w h k]
  have nb: "\<forall>q \<in> set (fourNeighbours ?w ?h px). 0 \<le> q \<and> q < int (length labels)"
    using fourNeighbours_valid[OF w h k] n by simp
  have r: "rd labels px = Some (labels ! nat px)" using k n by (simp add: rd_def)
  show ?thesis
  proof (cases "?x + 1 < ?w \<and> 0 \<le> ?y - 1 \<and> 0 \<le> ?x - 1 \<and> ?y + 1 < ?h")
    case True
    then have f: "fourNeighbours ?w ?h px =
       [?w * ?y + (?x + 1), ?w * (?y - 1) + ?x, ?w * ?y + (?x - 1), ?w * (?y + 1) + ?x]"
      by (simp add: fourNeighbours_def kToXY_valid[OF w k(1)] xyToK_def)
    have "isBoundaryPixel img labels px
        = Some (list_ex (\<lambda>q. labels ! nat px \<noteq> labels ! nat q) (fourNeighbours ?w ?h px))"
      using differsFromNeighbour_ok[OF nb] r f by (simp add: isBoundaryPixel_def Let_def)
    also have "list_ex (\<lambda>q. labels ! nat px \<noteq> labels ! nat q) (fourNeighbours ?w ?h px)
        = specBoundary ?w ?h labels px"
      using True c unfolding f specBoundary_def Let_def by auto
    finally show ?thesis .
  next
    case False
    then have "int (length (fourNeighbours ?w ?h px)) < 4"
      by (auto simp: fourNeighbours_def kToXY_valid[OF w k(1)])
    then have "isBoundaryPixel img labels px = Some True" by (simp add: isBoundaryPixel_def Let_def)
    moreover have "specBoundary ?w ?h labels px"
      using False c unfolding specBoundary_def Let_def by auto
    ultimately show ?thesis by simp
  qed
qed

lemma classifyPixels_ok:
  assumes w: "0 < img_w img" and h: "0 < img_h img"
    and n: "int (length labels) = img_w img * img_h img"
  shows "\<forall>px \<in> set pxs. 0 \<le> px \<and> px < img_w img * img_h img \<Longrightarrow>
         classifyPixels img labels pxs = Some (map (specBoundary (img_w img) (img_h img) labels) pxs)"
  by (induction pxs) (simp_all add: isBoundaryPixel_spec[OF w h n])

lemma channelSum_ok:
  "\<forall>px \<in> set pxs. 0 \<le> px \<and> px < int (length ch) \<Longrightarrow>
   channelSum ch pxs = Some (sum_list (map (\<lambda>px. ch ! nat px) pxs))"
  by (induction pxs) (simp_all add: rd_def)

lemma squaredDeviationSum_ok:
  "\<forall>px \<in> set pxs. 0 \<le> px \<and> px < int (length ch) \<Longrightarrow>
   squaredDeviationSum ch mean pxs
     = Some (sum_list (map (\<lambda>px. (mean - ch ! nat px) * (mean - ch ! nat px)) pxs))"
  by (induction pxs) (simp_all add: rd_def)

lemma arrangePixels_map:
  "arrangePixels pxs (map P pxs) = (filter P pxs, filter (\<lambda>px. \<not> P px) pxs)"
  by (induction pxs) simp_all

lemma length_filter_id_map: "length (filter id (map P pxs)) = length (filter P pxs)"
  by (induction pxs) simp_all

lemma Superpixel_ok:
  assumes v: "validImage img" and n: "int (length labels) = img_nPixels img"
    and np: "0 \<le> nPx" "nPx \<le> int (length pixels)"
    and px: "\<forall>px \<in> set (take (nat nPx) pixels). 0 \<le> px \<and> px < img_nPixels img"
  shows "\<exists>sp. Superpixel l pixels nPx labels img = Some sp
          \<and> sp_id sp = l \<and> sp_nPixels sp = nPx
          \<and> boundaryPixels sp = filter (specBoundary (img_w img) (img_h img) labels) (take (nat nPx) pixels)
          \<and> interiorPixels sp = filter (\<lambda>px. \<not> specBoundary (img_w img) (img_h img) labels px) (take (nat nPx) pixels)
          \<and> allPixels sp = boundaryPixels sp @ interiorPixels sp"
proof -
  let ?pxs = "take (nat nPx) pixels"
  let ?B = "specBoundary (img_w img) (img_h img) labels"
  let ?ord = "filter ?B ?pxs @ filter (\<lambda>px. \<not> ?B px) ?pxs"
  from v have w: "0 < img_w img" and h: "0 < img_h img" and e: "img_nPixels img = img_w img * img_h img"
    and cl: "int (length (img_lStar img)) = img_nPixels img"
    and ca: "int (length (img_aStar img)) = img_nPixels img"
    and cb: "int (length (img_bStar img)) = img_nPixels img"
    by (simp_all add: validImage_def)
  have t: "takeArr pixels nPx = Some ?pxs" using np by (simp add: takeArr_def)
  have c: "classifyPixels img labels ?pxs = Some (map ?B ?pxs)"
    using classifyPixels_ok[OF w h, of labels ?pxs] n e px by simp
  have s1: "channelSum (img_lStar img) ?pxs = Some (sum_list (map (\<lambda>px. img_lStar img ! nat px) ?pxs))"
    using channelSum_ok[of ?pxs "img_lStar img"] px cl by simp
  have s2: "channelSum (img_aStar img) ?pxs = Some (sum_list (map (\<lambda>px. img_aStar img ! nat px) ?pxs))"
    using channelSum_ok[of ?pxs "img_aStar img"] px ca by simp
  have s3: "channelSum (img_bStar img) ?pxs = Some (sum_list (map (\<lambda>px. img_bStar img ! nat px) ?pxs))"
    using channelSum_ok[of ?pxs "img_bStar img"] px cb by simp
  have po: "\<forall>px \<in> set ?ord. 0 \<le> px \<and> px < img_nPixels img" using px by auto
  have d1: "\<And>m. \<exists>d. squaredDeviationSum (img_lStar img) m ?ord = Some d"
    using squaredDeviationSum_ok[of ?ord "img_lStar img"] po cl by simp
  have d2: "\<And>m. \<exists>d. squaredDeviationSum (img_aStar img) m ?ord = Some d"
    using squaredDeviationSum_ok[of ?ord "img_aStar img"] po ca by simp
  have d3: "\<And>m. \<exists>d. squaredDeviationSum (img_bStar img) m ?ord = Some d"
    using squaredDeviationSum_ok[of ?ord "img_bStar img"] po cb by simp
  have len: "int (length ?pxs) = nPx" using np by simp
  have split: "length (filter ?B ?pxs) + length (filter (\<lambda>px. \<not> ?B px) ?pxs) = length ?pxs"
    using sum_length_filter_compl[of ?B ?pxs] by simp
  obtain sp where sp: "Superpixel l pixels nPx labels img = Some sp"
    and f: "sp_id sp = l" "sp_nPixels sp = nPx" "sp_allPx sp = ?ord"
      "sp_nBoundaryPixels sp = int (length (filter ?B ?pxs))"
      "sp_nInteriorPixels sp = nPx - int (length (filter ?B ?pxs))"
  proof (cases "nPx > 1")
    case True
    obtain x1 x2 x3 where x: "squaredDeviationSum (img_lStar img)
          (sum_list (map (\<lambda>px. img_lStar img ! nat px) ?pxs) / real_of_int nPx) ?ord = Some x1"
      "squaredDeviationSum (img_aStar img)
          (sum_list (map (\<lambda>px. img_aStar img ! nat px) ?pxs) / real_of_int nPx) ?ord = Some x2"
      "squaredDeviationSum (img_bStar img)
          (sum_list (map (\<lambda>px. img_bStar img ! nat px) ?pxs) / real_of_int nPx) ?ord = Some x3"
      using d1 d2 d3 by blast
    from True have nz: "nPx \<noteq> 1" by simp
    show ?thesis
      by (rule that[of "the (Superpixel l pixels nPx labels img)"])
         (simp_all add: Superpixel_def divideByCount_def nz t c s1 s2 s3 x True arrangePixels_map
            length_filter_id_map Let_def)
  next
    case False
    show ?thesis
      by (rule that[of "the (Superpixel l pixels nPx labels img)"])
         (simp_all add: Superpixel_def t c s1 s2 s3 False arrangePixels_map length_filter_id_map Let_def)
  qed
  have ni: "sp_nInteriorPixels sp = int (length (filter (\<lambda>px. \<not> ?B px) ?pxs))"
    using f(5) split len by linarith
  have b: "boundaryPixels sp = filter ?B ?pxs" using f by (simp add: boundaryPixels_def)
  have i: "interiorPixels sp = filter (\<lambda>px. \<not> ?B px) ?pxs"
    using f ni by (simp add: interiorPixels_def)
  have "length ?ord = nat nPx" using split len by simp
  then have a: "allPixels sp = ?ord" by (simp add: allPixels_def f(2,3))
  from sp f b i a show ?thesis by simp
qed

lemma naiveScan_valid:
  "px \<in> set (naiveScan labels j) \<Longrightarrow> 0 \<le> px \<and> px < int (length labels)"
  by (auto simp: naiveScan_def)

lemma createSuperpixels_inv:
  "\<lbrakk> validImage img; int (length labels) = img_nPixels img;
     validLabels kParam labels; countsMatch kParam labels npc;
     sortInv kParam labels npc (- 1) offs srt;
     0 \<le> k; endCluster \<le> kParam; length sps = nat kParam;
     \<forall>j<nat k. \<exists>sp. sps ! j = Some sp \<and> superpixelOf labels img j sp \<rbrakk>
   \<Longrightarrow> \<exists>sps'. createSuperpixels endCluster npc offs srt labels img (k, sps) = Some (max k endCluster, sps')
          \<and> length sps' = nat kParam
          \<and> (\<forall>j<nat (max k endCluster). \<exists>sp. sps' ! j = Some sp \<and> superpixelOf labels img j sp)"
proof (induction endCluster npc offs srt labels img "(k, sps)" arbitrary: k sps
       rule: createSuperpixels.induct)
  case (1 endCluster npc offs srt labels img k sps)
  note v = "1.prems"(3) and c = "1.prems"(4) and inv = "1.prems"(5)
  show ?case
  proof (cases "k < endCluster")
    case False
    then have "max k endCluster = k" by simp
    with False "1.prems" show ?thesis by (subst createSuperpixels.simps) simp
  next
    case True
    let ?j = "nat k"
    have j: "?j < nat kParam" "int ?j = k" using True "1.prems" by simp_all
    from inv have len: "length offs = nat kParam" "length srt = length labels"
      and oj: "offs ! ?j = startOf npc ?j" using j by (simp_all add: sortInv_def)
    from c have ln: "length npc = nat kParam" and nj: "npc ! ?j = int (lblCount labels (length labels) ?j)"
      using j by (simp_all add: countsMatch_def)
    have s0: "0 \<le> startOf npc ?j" using startOf_mono[OF c, of 0 ?j] j by simp
    have "startOf npc (Suc ?j) \<le> startOf npc (nat kParam)"
      using startOf_mono[OF c, of "Suc ?j" "nat kParam"] j by simp
    then have fit: "startOf npc ?j + npc ! ?j \<le> int (length labels)"
      using startOf_total[OF v c] by (simp add: startOf_Suc)
    let ?pxs = "naiveScan labels k"
    have bucket: "sortedBucket offs npc srt ?j = ?pxs"
      using sortedBucket_naiveScan[OF v c inv j(1)] j by simp
    have r1: "rd npc k = Some (npc ! ?j)" using j ln "1.prems"(6) by (simp add: rd_def)
    have r2: "rd offs k = Some (startOf npc ?j)" using j len oj "1.prems"(6) by (simp add: rd_def)
    have cp: "copyRange srt (startOf npc ?j) (startOf npc ?j + npc ! ?j) = Some ?pxs"
      using bucket fit s0 nj oj len by (simp add: copyRange_def sortedBucket_def)
    have lp: "int (length ?pxs) = npc ! ?j" using nj j by (simp add: naiveScan_def lblCount_def)
    have tk: "take (nat (npc ! ?j)) ?pxs = ?pxs" using lp by simp
    have pv: "\<forall>px \<in> set (take (nat (npc ! ?j)) ?pxs). 0 \<le> px \<and> px < img_nPixels img"
      using naiveScan_valid[of _ labels k] "1.prems"(2) unfolding tk by auto
    have np: "0 \<le> npc ! ?j" "npc ! ?j \<le> int (length ?pxs)" using lp by simp_all
    from Superpixel_ok[OF "1.prems"(1,2) np pv, of k]
    obtain sp where sp: "Superpixel k ?pxs (npc ! ?j) labels img = Some sp"
      and f: "sp_id sp = k"
        "boundaryPixels sp = filter (specBoundary (img_w img) (img_h img) labels) ?pxs"
        "interiorPixels sp = filter (\<lambda>px. \<not> specBoundary (img_w img) (img_h img) labels px) ?pxs"
        "allPixels sp = boundaryPixels sp @ interiorPixels sp"
      unfolding tk by blast
    have g: "superpixelOf labels img ?j sp"
      unfolding superpixelOf_def j(2) using f by simp
    let ?sps = "sps[?j := Some sp]"
    have w: "wr sps k (Some sp) = Some ?sps" using j "1.prems"(6,8) by (simp add: wr_def)
    have inv': "\<forall>i<nat (k + 1). \<exists>sp. ?sps ! i = Some sp \<and> superpixelOf labels img i sp"
    proof (intro allI impI)
      fix i assume i: "i < nat (k + 1)"
      show "\<exists>sp. ?sps ! i = Some sp \<and> superpixelOf labels img i sp"
      proof (cases "i = ?j")
        case True
        then show ?thesis using g j "1.prems"(8) by simp
      next
        case False
        then have "i < nat k" using i "1.prems"(6) by linarith
        then show ?thesis using False "1.prems"(9) by simp
      qed
    qed
    have "\<exists>sps'. createSuperpixels endCluster npc offs srt labels img (k + 1, ?sps)
            = Some (max (k + 1) endCluster, sps')
          \<and> length sps' = nat kParam
          \<and> (\<forall>j<nat (max (k + 1) endCluster). \<exists>sp. sps' ! j = Some sp \<and> superpixelOf labels img j sp)"
      using "1.hyps"[OF True r1 r2 cp sp w "1.prems"(1,2) v c inv _ "1.prems"(7) _ inv'] "1.prems"(6,8)
      by simp
    moreover have "max (k + 1) endCluster = max k endCluster" using True by simp
    ultimately show ?thesis
      using True r1 r2 cp sp w by (subst createSuperpixels.simps) simp
  qed
qed

lemma createStage_inv:
  "\<lbrakk> validImage img; int (length labels) = img_nPixels img;
     validLabels kParam labels; countsMatch kParam labels npc;
     sortInv kParam labels npc (- 1) offs srt;
     0 \<le> k; k \<le> kParam; k = 0 \<or> length sps = nat kParam;
     \<forall>j<nat k. \<exists>sp. sps ! j = Some sp \<and> superpixelOf labels img j sp \<rbrakk>
   \<Longrightarrow> \<exists>sps'. createStage kParam npc offs srt labels img (k, sps) = Some sps'
          \<and> (k < kParam \<longrightarrow> length sps' = nat kParam)
          \<and> (\<forall>j<nat kParam. \<exists>sp. sps' ! j = Some sp \<and> superpixelOf labels img j sp)"
proof (induction kParam npc offs srt labels img "(k, sps)" arbitrary: k sps rule: createStage.induct)
  case (1 kParam npc offs srt labels img k sps)
  show ?case
  proof (cases "k = kParam")
    case True
    with "1.prems" show ?thesis by (subst createStage.simps) simp
  next
    case False
    with "1.prems" have lt: "k < kParam" "\<not> kParam < k" by simp_all
    let ?s0 = "if k = 0 then replicate (nat kParam) None else sps"
    let ?e = "createIncEnd kParam k"
    have e: "k < ?e" "?e \<le> kParam"
      using lt by (simp_all add: createIncEnd_def Let_def SLIC_CLUSTER_GRANULARITY_def)
    have l0: "length ?s0 = nat kParam" using "1.prems"(8) by auto
    have i0: "\<forall>j<nat k. \<exists>sp. ?s0 ! j = Some sp \<and> superpixelOf labels img j sp"
      using "1.prems"(9) by auto
    from createSuperpixels_inv[OF "1.prems"(1-6) e(2) l0 i0]
    obtain s1 where s1: "createSuperpixels ?e npc offs srt labels img (k, ?s0) = Some (?e, s1)"
      "length s1 = nat kParam"
      "\<forall>j<nat ?e. \<exists>sp. s1 ! j = Some sp \<and> superpixelOf labels img j sp"
      using e by (auto simp: max_def)
    have "\<exists>sps'. createStage kParam npc offs srt labels img (?e, s1) = Some sps'
          \<and> (?e < kParam \<longrightarrow> length sps' = nat kParam)
          \<and> (\<forall>j<nat kParam. \<exists>sp. sps' ! j = Some sp \<and> superpixelOf labels img j sp)"
      using "1.hyps"[OF False lt(2) s1(1) "1.prems"(1-5) _ e(2) _ s1(3)] e "1.prems"(6) s1(2) by simp
    then obtain sps' where r: "createStage kParam npc offs srt labels img (?e, s1) = Some sps'"
      "?e < kParam \<longrightarrow> length sps' = nat kParam"
      "\<forall>j<nat kParam. \<exists>sp. sps' ! j = Some sp \<and> superpixelOf labels img j sp" by blast
    have "length sps' = nat kParam"
    proof (cases "?e < kParam")
      case True
      with r(2) show ?thesis by simp
    next
      case False
      with e have "?e = kParam" by simp
      with r(1) s1(2) show ?thesis by (subst (asm) createStage.simps) simp
    qed
    with r show ?thesis using False lt s1(1) by (subst createStage.simps) simp
  qed
qed

lemma naiveScan_set:
  "set (naiveScan labels j) = {int p |p. p < length labels \<and> labels ! p = j}"
  by (auto simp: naiveScan_def)

lemma naiveScan_distinct: "distinct (naiveScan labels j)"
  by (simp add: naiveScan_def distinct_map inj_on_def)

lemma superpixelOf_partition:
  assumes "superpixelOf labels img j sp"
  shows "distinct (allPixels sp)"
    and "set (allPixels sp) = {int p |p. p < length labels \<and> labels ! p = int j}"
    and "set (interiorPixels sp) \<inter> set (boundaryPixels sp) = {}"
    and "set (interiorPixels sp) \<union> set (boundaryPixels sp) = set (allPixels sp)"
    and "\<forall>px \<in> set (allPixels sp).
           (px \<in> set (boundaryPixels sp)) = specBoundary (img_w img) (img_h img) labels px"
proof -
  let ?B = "specBoundary (img_w img) (img_h img) labels"
  let ?pxs = "naiveScan labels (int j)"
  from assms have a: "allPixels sp = boundaryPixels sp @ interiorPixels sp"
    and b: "boundaryPixels sp = filter ?B ?pxs"
    and i: "interiorPixels sp = filter (\<lambda>px. \<not> ?B px) ?pxs"
    by (simp_all add: superpixelOf_def)
  show "distinct (allPixels sp)" using naiveScan_distinct[of labels "int j"] by (auto simp: a b i)
  have s: "set (allPixels sp) = set ?pxs" by (auto simp: a b i)
  then show "set (allPixels sp) = {int p |p. p < length labels \<and> labels ! p = int j}"
    by (simp add: naiveScan_set)
  show "set (interiorPixels sp) \<inter> set (boundaryPixels sp) = {}" by (auto simp: b i)
  show "set (interiorPixels sp) \<union> set (boundaryPixels sp) = set (allPixels sp)" by (auto simp: a)
  show "\<forall>px \<in> set (allPixels sp). (px \<in> set (boundaryPixels sp)) = ?B px"
    unfolding s by (auto simp: b)
qed

lemma Superpixel_small:
  assumes "Superpixel l pixels nPx labels img = Some sp" and "nPx \<le> 1"
  shows "sp_stdDevColor sp = 0 \<and> sp_stdDevColorChannels sp = (0, 0, 0)"
proof -
  from assms(1) obtain pxs lSum aSum bSum isBoundary where
    "takeArr pixels nPx = Some pxs" "channelSum (img_lStar img) pxs = Some lSum"
    "channelSum (img_aStar img) pxs = Some aSum" "channelSum (img_bStar img) pxs = Some bSum"
    "classifyPixels img labels pxs = Some isBoundary"
    by (auto simp: Superpixel_def bind_eq_Some_conv)
  with assms show ?thesis
    by (cases "arrangePixels pxs isBoundary") (auto simp: Superpixel_def Let_def)
qed

text \<open>
  Claim C1. For a label array whose labels are cluster indices and whose per-label counts
  are \<open>nPixelsPerCluster\<close> (the state in which a SLIC run reaches its finalization), the
  sorting stage and the superpixel construction stage both return, and in the resulting
  array of superpixels every pixel index of the image is in the pixel list of exactly one
  superpixel, and in it once; the pixel list of superpixel \<open>j\<close> is the set of pixels
  labelled \<open>j\<close>; its interior and boundary lists are disjoint and together are the whole
  list; and a pixel is in the boundary list exactly when one of its four neighbours has a
  different label or lies off the image.
\<close>

theorem slic_segmentation_partition:
  assumes "validImage img" and "int (length clusterLabels) = img_nPixels img"
    and "validLabels kParam clusterLabels"
    and "countsMatch kParam clusterLabels nPixelsPerCluster"
    and "1 \<le> kParam" and "length offs = nat kParam"
    and "length sortedPixels = length clusterLabels"
  shows "\<exists>offs' sorted' sps.
           sortStage (img_nPixels img) kParam clusterLabels nPixelsPerCluster
               (img_nPixels img - 1, offs, sortedPixels) = Some (offs', sorted')
         \<and> createStage kParam nPixelsPerCluster offs' sorted' clusterLabels img (0, superpixels0)
               = Some (map Some sps)
         \<and> length sps = nat kParam
         \<and> (\<forall>p<length clusterLabels. \<exists>!j. j < nat kParam \<and> int p \<in> set (allPixels (sps ! j)))
         \<and> (\<forall>j<nat kParam.
               distinct (allPixels (sps ! j))
             \<and> set (allPixels (sps ! j)) = {int p |p. p < length clusterLabels \<and> clusterLabels ! p = int j}
             \<and> set (interiorPixels (sps ! j)) \<inter> set (boundaryPixels (sps ! j)) = {}
             \<and> set (interiorPixels (sps ! j)) \<union> set (boundaryPixels (sps ! j)) = set (allPixels (sps ! j))
             \<and> (\<forall>px \<in> set (allPixels (sps ! j)).
                   (px \<in> set (boundaryPixels (sps ! j)))
                   = specBoundary (img_w img) (img_h img) clusterLabels px))"
proof -
  let ?n = "img_nPixels img" and ?K = "nat kParam"
  from assms(1) have pos: "0 < ?n" by (simp add: validImage_def)
  have "\<exists>offs' srt'. sortStage ?n kParam clusterLabels nPixelsPerCluster (?n - 1, offs, sortedPixels)
             = Some (offs', srt')
          \<and> sortInv kParam clusterLabels nPixelsPerCluster (- 1) offs' srt'"
  proof (rule sortStage_inv[OF assms(3,4,5) assms(2)[symmetric] pos _ _ assms(6,7)])
    show "- 1 \<le> ?n - 1" using pos by simp
    show "?n - 1 < ?n" by simp
    show "?n - 1 = ?n - 1 \<or> sortInv kParam clusterLabels nPixelsPerCluster (?n - 1) offs sortedPixels"
      by simp
  qed
  then obtain offs' sorted' where
    run: "sortStage ?n kParam clusterLabels nPixelsPerCluster (?n - 1, offs, sortedPixels)
             = Some (offs', sorted')"
    and inv: "sortInv kParam clusterLabels nPixelsPerCluster (- 1) offs' sorted'"
    by blast
  have "\<exists>sps'. createStage kParam nPixelsPerCluster offs' sorted' clusterLabels img (0, superpixels0) = Some sps'
          \<and> (0 < kParam \<longrightarrow> length sps' = nat kParam)
          \<and> (\<forall>j<nat kParam. \<exists>sp. sps' ! j = Some sp \<and> superpixelOf clusterLabels img j sp)"
  proof (rule createStage_inv[OF assms(1,2,3,4) inv])
    show "(0::int) \<le> 0" by simp
    show "0 \<le> kParam" using assms(5) by simp
    show "(0::int) = 0 \<or> length superpixels0 = nat kParam" by simp
    show "\<forall>j<nat 0. \<exists>sp. superpixels0 ! j = Some sp \<and> superpixelOf clusterLabels img j sp" by simp
  qed
  then obtain sps' where cr: "createStage kParam nPixelsPerCluster offs' sorted' clusterLabels img (0, superpixels0)
               = Some sps'"
    and len0: "0 < kParam \<longrightarrow> length sps' = ?K"
    and good: "\<forall>j<?K. \<exists>sp. sps' ! j = Some sp \<and> superpixelOf clusterLabels img j sp"
    by blast
  have len: "length sps' = ?K" using len0 assms(5) by simp
  define sps where "sps = map the sps'"
  have e: "sps' = map Some sps"
  proof (rule nth_equalityI)
    show "length sps' = length (map Some sps)" by (simp add: sps_def)
    fix i assume i: "i < length sps'"
    then obtain sp where "sps' ! i = Some sp" using good len by metis
    then show "sps' ! i = map Some sps ! i" using i by (simp add: sps_def)
  qed
  have g: "\<And>j. j < ?K \<Longrightarrow> superpixelOf clusterLabels img j (sps ! j)"
  proof -
    fix j assume j: "j < ?K"
    then obtain sp where "sps' ! j = Some sp" "superpixelOf clusterLabels img j sp"
      using good by blast
    then show "superpixelOf clusterLabels img j (sps ! j)" using j len by (simp add: sps_def)
  qed
  have l: "length sps = ?K" using len by (simp add: sps_def)
  have u: "\<forall>p<length clusterLabels. \<exists>!j. j < ?K \<and> int p \<in> set (allPixels (sps ! j))"
  proof (intro allI impI)
    fix p assume p: "p < length clusterLabels"
    then have "clusterLabels ! p \<in> set clusterLabels" by simp
    with assms(3) have r: "0 \<le> clusterLabels ! p" "clusterLabels ! p < kParam"
      by (auto simp: validLabels_def)
    let ?j = "nat (clusterLabels ! p)"
    have j: "?j < ?K" "clusterLabels ! p = int ?j" using r by auto
    show "\<exists>!j. j < ?K \<and> int p \<in> set (allPixels (sps ! j))"
    proof (rule ex1I[of _ ?j])
      show "?j < ?K \<and> int p \<in> set (allPixels (sps ! ?j))"
        using superpixelOf_partition(2)[OF g[OF j(1)]] j p by auto
    next
      fix i assume "i < ?K \<and> int p \<in> set (allPixels (sps ! i))"
      then have "int p \<in> {int q |q. q < length clusterLabels \<and> clusterLabels ! q = int i}"
        using superpixelOf_partition(2)[OF g, of i] by simp
      then have "clusterLabels ! p = int i" by auto
      then show "i = ?j" by simp
    qed
  qed
  have q: "\<forall>j<?K.
               distinct (allPixels (sps ! j))
             \<and> set (allPixels (sps ! j)) = {int p |p. p < length clusterLabels \<and> clusterLabels ! p = int j}
             \<and> set (interiorPixels (sps ! j)) \<inter> set (boundaryPixels (sps ! j)) = {}
             \<and> set (interiorPixels (sps ! j)) \<union> set (boundaryPixels (sps ! j)) = set (allPixels (sps ! j))
             \<and> (\<forall>px \<in> set (allPixels (sps ! j)).
                   (px \<in> set (boundaryPixels (sps ! j)))
                   = specBoundary (img_w img) (img_h img) clusterLabels px)"
  proof (intro allI impI)
    fix j assume "j < ?K"
    note p = superpixelOf_partition[OF g[OF this]]
    show "distinct (allPixels (sps ! j))
             \<and> set (allPixels (sps ! j)) = {int p |p. p < length clusterLabels \<and> clusterLabels ! p = int j}
             \<and> set (interiorPixels (sps ! j)) \<inter> set (boundaryPixels (sps ! j)) = {}
             \<and> set (interiorPixels (sps ! j)) \<union> set (boundaryPixels (sps ! j)) = set (allPixels (sps ! j))
             \<and> (\<forall>px \<in> set (allPixels (sps ! j)).
                   (px \<in> set (boundaryPixels (sps ! j)))
                   = specBoundary (img_w img) (img_h img) clusterLabels px)"
      by (intro conjI) (rule p)+
  qed
  show ?thesis
    by (rule exI[of _ offs'], rule exI[of _ sorted'], rule exI[of _ sps])
       (use run cr e l u q in \<open>simp only: simp_thms\<close>)
qed

theorem slic_segmentation_partition_witness:
  "validImage exampleImage \<and> int (length [2, 0, 2, 1, 0, 2 :: int]) = img_nPixels exampleImage
   \<and> validLabels 3 [2, 0, 2, 1, 0, 2] \<and> countsMatch 3 [2, 0, 2, 1, 0, 2] [2, 1, 3]
   \<and> (\<exists>offs' sorted' sps.
           sortStage (img_nPixels exampleImage) 3 [2, 0, 2, 1, 0, 2] [2, 1, 3]
               (img_nPixels exampleImage - 1, [9, 9, 9], [7, 7, 7, 7, 7, 7]) = Some (offs', sorted')
         \<and> createStage 3 [2, 1, 3] offs' sorted' [2, 0, 2, 1, 0, 2] exampleImage (0, [])
               = Some (map Some sps)
         \<and> length sps = nat 3
         \<and> (\<forall>p<length [2, 0, 2, 1, 0, 2 :: int]. \<exists>!j. j < nat 3 \<and> int p \<in> set (allPixels (sps ! j)))
         \<and> (\<forall>j<nat 3.
               distinct (allPixels (sps ! j))
             \<and> set (allPixels (sps ! j))
                 = {int p |p. p < length [2, 0, 2, 1, 0, 2 :: int] \<and> [2, 0, 2, 1, 0, 2] ! p = int j}
             \<and> set (interiorPixels (sps ! j)) \<inter> set (boundaryPixels (sps ! j)) = {}
             \<and> set (interiorPixels (sps ! j)) \<union> set (boundaryPixels (sps ! j)) = set (allPixels (sps ! j))
             \<and> (\<forall>px \<in> set (allPixels (sps ! j)).
                   (px \<in> set (boundaryPixels (sps ! j)))
                   = specBoundary (img_w exampleImage) (img_h exampleImage) [2, 0, 2, 1, 0, 2] px)))"
proof -
  have h1: "validImage exampleImage" by (simp add: validImage_def exampleImage_def)
  have h2: "int (length [2, 0, 2, 1, 0, 2 :: int]) = img_nPixels exampleImage"
    by (simp add: exampleImage_def)
  have h3: "validLabels 3 [2, 0, 2, 1, 0, 2]" by (simp add: validLabels_def)
  have h4: "countsMatch 3 [2, 0, 2, 1, 0, 2] [2, 1, 3]"
    by (simp add: countsMatch_def lblCount_def eval_nat_numeral less_Suc_eq upt_rec)
  have h5: "(1::int) \<le> 3" by simp
  have h6: "length [9, 9, 9 :: int] = nat 3" by simp
  have h7: "length [7, 7, 7, 7, 7, 7 :: int] = length [2, 0, 2, 1, 0, 2 :: int]" by simp
  note r = slic_segmentation_partition[OF h1 h2 h3 h4 h5 h6 h7, of "[]"]
  show ?thesis by (intro conjI h1 h2 h3 h4 r)
qed

text \<open>
  Claim C10. A superpixel constructed from a pixel list of exactly one pixel has the
  aggregate colour standard deviation \<open>0\<close> and the per-channel standard deviations
  \<open>(0, 0, 0)\<close>. The constructor returns: the division by \<open>nPixels - 1\<close>, which is a division
  by zero for this superpixel (\<open>divideByCount\<close> has no result for that divisor, whatever the
  dividend), is under the guard \<open>nPixels > 1\<close> and is not reached, so the values the
  constructor initialised are returned.
\<close>

theorem single_pixel_superpixel_has_zero_deviation:
  assumes "validImage img" and "int (length labels) = img_nPixels img"
    and "0 \<le> px" and "px < img_nPixels img"
  shows "\<exists>sp. Superpixel l [px] 1 labels img = Some sp
           \<and> sp_nPixels sp = 1 \<and> allPixels sp = [px]
           \<and> sp_stdDevColor sp = 0 \<and> sp_stdDevColorChannels sp = (0, 0, 0)
           \<and> (\<forall>v. divideByCount v (sp_nPixels sp - 1) = None)"
proof -
  have pv: "\<forall>q \<in> set (take (nat 1) [px]). 0 \<le> q \<and> q < img_nPixels img" using assms by simp
  from Superpixel_ok[OF assms(1,2) _ _ pv, of l]
  obtain sp where sp: "Superpixel l [px] 1 labels img = Some sp" and n: "sp_nPixels sp = 1"
    and a: "allPixels sp = boundaryPixels sp @ interiorPixels sp"
    and b: "boundaryPixels sp = filter (specBoundary (img_w img) (img_h img) labels) [px]"
    and i: "interiorPixels sp = filter (\<lambda>px. \<not> specBoundary (img_w img) (img_h img) labels px) [px]"
    by auto
  have "allPixels sp = [px]" by (simp add: a b i)
  moreover have "sp_stdDevColor sp = 0 \<and> sp_stdDevColorChannels sp = (0, 0, 0)"
    using Superpixel_small[OF sp] by simp
  moreover have "\<forall>v. divideByCount v (sp_nPixels sp - 1) = None"
    by (simp add: n divideByCount_def)
  ultimately show ?thesis using sp n by simp
qed

theorem single_pixel_superpixel_has_zero_deviation_witness:
  "validImage exampleImage \<and> int (length [2, 0, 2, 1, 0, 2 :: int]) = img_nPixels exampleImage
   \<and> (\<exists>sp. Superpixel 1 [3] 1 [2, 0, 2, 1, 0, 2] exampleImage = Some sp
           \<and> sp_nPixels sp = 1 \<and> allPixels sp = [3]
           \<and> sp_stdDevColor sp = 0 \<and> sp_stdDevColorChannels sp = (0, 0, 0)
           \<and> (\<forall>v. divideByCount v (sp_nPixels sp - 1) = None))"
proof -
  have h1: "validImage exampleImage" by (simp add: validImage_def exampleImage_def)
  have h2: "int (length [2, 0, 2, 1, 0, 2 :: int]) = img_nPixels exampleImage"
    by (simp add: exampleImage_def)
  have h3: "(0::int) \<le> 3" by simp
  have h4: "3 < img_nPixels exampleImage" by (simp add: exampleImage_def)
  note r = single_pixel_superpixel_has_zero_deviation[OF h1 h2 h3 h4, of 1]
  show ?thesis by (intro conjI h1 h2 r)
qed

section \<open>The shallow transfer of a segmentation\<close>

text \<open>
  Claim C9, as amended. The shallow constructor gives the new instance the source's
  pointers, count and ownership flags, so the destructor of the new instance frees exactly
  what the destructor of the source would have freed before the transfer; afterwards the
  destructor of the source frees nothing. The source still holds the same three pointers:
  it is a non-owning alias of the transferred arrays, not an empty object.
\<close>

theorem shallow_transfer_keeps_pointers_in_source:
  "destroySuperpixellation (fst (SuperpixellationShallow other)) = destroySuperpixellation other
   \<and> destroySuperpixellation (snd (SuperpixellationShallow other)) = []
   \<and> spn_superpixels (fst (SuperpixellationShallow other)) = spn_superpixels other
   \<and> spn_img (fst (SuperpixellationShallow other)) = spn_img other
   \<and> spn_superpixelLabels (fst (SuperpixellationShallow other)) = spn_superpixelLabels other
   \<and> spn_nSuperpixels (fst (SuperpixellationShallow other)) = spn_nSuperpixels other
   \<and> spn_superpixels (snd (SuperpixellationShallow other)) = spn_superpixels other
   \<and> spn_img (snd (SuperpixellationShallow other)) = spn_img other
   \<and> spn_superpixelLabels (snd (SuperpixellationShallow other)) = spn_superpixelLabels other"
  by (simp add: SuperpixellationShallow_def destroySuperpixellation_def)

theorem shallow_transfer_keeps_pointers_in_source_witness:
  "destroySuperpixellation (fst (SuperpixellationShallow exampleSegmentation))
     = [DeleteSuperpixel 100 0, DeleteSuperpixel 100 1, DeleteSuperpixelArray 100, DeleteImage 200,
        DeleteLabelArray 300]
   \<and> destroySuperpixellation (snd (SuperpixellationShallow exampleSegmentation)) = []
   \<and> spn_superpixels (snd (SuperpixellationShallow exampleSegmentation)) = 100"
proof -
  have "destroySuperpixellation exampleSegmentation
     = [DeleteSuperpixel 100 0, DeleteSuperpixel 100 1, DeleteSuperpixelArray 100, DeleteImage 200,
        DeleteLabelArray 300]"
    by (simp add: exampleSegmentation_def Superpixellation_def destroySuperpixellation_def upt_rec)
  moreover have "spn_superpixels exampleSegmentation = 100"
    by (simp add: exampleSegmentation_def Superpixellation_def)
  ultimately show ?thesis
    using shallow_transfer_keeps_pointers_in_source[of exampleSegmentation] by simp
qed

text \<open>
  Claim C9, as stated, fails: after the transfer of an owning segmentation the source
  still refers to the superpixel array, the image and the label array.
\<close>

theorem shallow_transfer_source_not_empty_counterexample:
  "\<not> emptyShell (snd (SuperpixellationShallow exampleSegmentation))"
  by (simp add: emptyShell_def SuperpixellationShallow_def exampleSegmentation_def Superpixellation_def)

section \<open>Otsu's threshold\<close>

subsection \<open>Rounding to a double\<close>










subsection \<open>The histogram sums\<close>

lemma weightDarkAt_0 [simp]: "weightDarkAt h 0 = 0"
  by (simp add: weightDarkAt_def)

lemma sumDarkAt_0 [simp]: "sumDarkAt h 0 = 0"
  by (simp add: sumDarkAt_def)

lemma weightDarkAt_Suc: "weightDarkAt h (Suc b) = weightDarkAt h b + h ! b"
  by (simp add: weightDarkAt_def)

lemma sumDarkAt_Suc: "sumDarkAt h (Suc b) = sumDarkAt h b + int b * h ! b"
  by (simp add: sumDarkAt_def)




lemma sumDarkAt_le:
  "histogramOk h \<Longrightarrow> b \<le> length h \<Longrightarrow> sumDarkAt h b \<le> (int b - 1) * weightDarkAt h b"
proof -
  assume ok: "histogramOk h" and b: "b \<le> length h"
  have "sumDarkAt h b \<le> (\<Sum>i<b. (int b - 1) * h ! i)"
    unfolding sumDarkAt_def
  proof (rule sum_mono)
    fix i assume "i \<in> {..<b}"
    then have "i < length h" "int i \<le> int b - 1" using b by auto
    moreover from \<open>i < length h\<close> ok have "0 \<le> h ! i" by (simp add: histogramOk_def)
    ultimately show "int i * h ! i \<le> (int b - 1) * h ! i" by (simp add: mult_right_mono)
  qed
  then show ?thesis by (simp add: weightDarkAt_def sum_distrib_left)
qed

lemma sumLight_ge:
  "histogramOk h \<Longrightarrow> b \<le> m \<Longrightarrow> m \<le> length h \<Longrightarrow>
   int b * (weightDarkAt h m - weightDarkAt h b) \<le> sumDarkAt h m - sumDarkAt h b"
proof (induction m)
  case 0
  then show ?case by simp
next
  case (Suc m)
  show ?case
  proof (cases "b = Suc m")
    case True
    then show ?thesis by simp
  next
    case False
    with Suc.prems have bm: "b \<le> m" "m < length h" by simp_all
    from \<open>m < length h\<close> Suc.prems(1) have "0 \<le> h ! m" by (simp add: histogramOk_def)
    then have "int b * h ! m \<le> int m * h ! m" using bm by (simp add: mult_right_mono)
    moreover have "int b * (weightDarkAt h m - weightDarkAt h b) \<le> sumDarkAt h m - sumDarkAt h b"
      using Suc bm by simp
    ultimately show ?thesis by (simp add: weightDarkAt_Suc sumDarkAt_Suc algebra_simps)
  qed
qed



lemma betweenClassVariance_pos:
  assumes ok: "histogramOk h" and c: "otsuCandidate h b"
  shows "0 < betweenClassVariance h b"
proof -
  let ?wD = "weightDarkAt h b" and ?wL = "weightDarkAt h (length h) - weightDarkAt h b"
  let ?sD = "sumDarkAt h b" and ?sL = "sumDarkAt h (length h) - sumDarkAt h b"
  from c have b: "1 \<le> b" "b < length h" and w: "0 < ?wD" "0 < ?wL" by (simp_all add: otsuCandidate_def)
  have "?sD \<le> (int b - 1) * ?wD" using sumDarkAt_le[OF ok, of b] b by simp
  then have "real_of_int ?sD \<le> real_of_int ((int b - 1) * ?wD)" by (simp only: of_int_le_iff)
  then have d: "real_of_int ?sD / real_of_int ?wD \<le> real b - 1"
    using w by (simp add: pos_divide_le_eq)
  have "int b * ?wL \<le> ?sL" using sumLight_ge[OF ok, of b "length h"] b by simp
  then have "real_of_int (int b * ?wL) \<le> real_of_int ?sL" by (simp only: of_int_le_iff)
  then have l: "real b \<le> real_of_int ?sL / real_of_int ?wL"
    using w by (simp add: pos_le_divide_eq)
  from d l have "0 < real_of_int ?sL / real_of_int ?wL - real_of_int ?sD / real_of_int ?wD" by simp
  then have "0 < (real_of_int ?sL / real_of_int ?wL - real_of_int ?sD / real_of_int ?wD)\<^sup>2" by simp
  moreover have "0 < real_of_int ?wD * real_of_int ?wL" using w by simp
  ultimately show ?thesis unfolding betweenClassVariance_def Let_def by (rule mult_pos_pos[rotated])
qed











lemma computedBetweenClassVariance_0 [simp]: "computedBetweenClassVariance h 0 = 0"
  by (simp add: computedBetweenClassVariance_def roundToDouble_def)







section \<open>The classification of the superpixels\<close>

lemma markPixels_ok:
  "\<forall>px \<in> set pxs. 0 \<le> px \<and> px < int (length sel) \<Longrightarrow>
   \<exists>sel'. markPixels c pxs sel = Some sel' \<and> length sel' = length sel
     \<and> (\<forall>p<length sel. sel' ! p = (if int p \<in> set pxs then c else sel ! p))"
proof (induction pxs arbitrary: sel)
  case Nil
  then show ?case by simp
next
  case (Cons px pxs)
  let ?s = "sel[nat px := c]"
  have w: "wr sel px c = Some ?s" using Cons.prems by (simp add: wr_def)
  have "\<forall>q \<in> set pxs. 0 \<le> q \<and> q < int (length ?s)" using Cons.prems by simp
  from Cons.IH[OF this] obtain sel' where
    m: "markPixels c pxs ?s = Some sel'" and l: "length sel' = length ?s"
    and v: "\<forall>p<length ?s. sel' ! p = (if int p \<in> set pxs then c else ?s ! p)" by blast
  have "\<forall>p<length sel. sel' ! p = (if int p \<in> set (px # pxs) then c else sel ! p)"
  proof (intro allI impI)
    fix p assume p: "p < length sel"
    show "sel' ! p = (if int p \<in> set (px # pxs) then c else sel ! p)"
    proof (cases "int p = px")
      case True
      then have "nat px = p" by simp
      then show ?thesis using v p True by simp
    next
      case False
      then have "nat px \<noteq> p" using Cons.prems by auto
      then show ?thesis using v p False by simp
    qed
  qed
  with m l w show ?case by simp
qed

lemma filterSuperpixels_inv:
  "\<lbrakk> segmentationOf labels sps; length scores = length sps; 0 \<le> k; e \<le> int (length sps);
     filterInv below scores thr labels (length sps) k selS selP \<rbrakk>
   \<Longrightarrow> \<exists>selS' selP'. filterSuperpixels e below scores thr sps (k, selS, selP) = Some (max k e, selS', selP')
         \<and> filterInv below scores thr labels (length sps) (max k e) selS' selP'"
proof (induction e below scores thr sps "(k, selS, selP)" arbitrary: k selS selP
       rule: filterSuperpixels.induct)
  case (1 e below scores thr sps k selS selP)
  show ?case
  proof (cases "k < e")
    case False
    then have "max k e = k" by simp
    with False "1.prems" show ?thesis by (subst filterSuperpixels.simps) simp
  next
    case True
    let ?j = "nat k"
    have j: "?j < length sps" "int ?j = k" using True "1.prems" by simp_all
    from "1.prems"(5) have len: "length selS = length sps" "length selP = length labels"
      and isl: "\<forall>j<nat k. selS ! j = (if below then scores ! j < thr else scores ! j \<ge> thr)"
      and ip: "\<forall>p<length labels. labels ! p < k \<longrightarrow> selP ! p = selS ! nat (labels ! p)"
      by (simp_all add: filterInv_def)
    from "1.prems"(1) j have
      px: "set (allPixels (sps ! ?j)) = {int p |p. p < length labels \<and> labels ! p = k}"
      and vl: "validLabels (int (length sps)) labels"
      by (auto simp: segmentationOf_def)
    let ?c = "if below then scores ! ?j < thr else scores ! ?j \<ge> thr"
    let ?s = "selS[?j := ?c]"
    have r1: "rd scores k = Some (scores ! ?j)" using j "1.prems"(2,3) by (simp add: rd_def)
    have w1: "wr selS k ?c = Some ?s" using j len "1.prems"(3) by (simp add: wr_def)
    have r2: "rd sps k = Some (sps ! ?j)" using j "1.prems"(3) by (simp add: rd_def)
    have "\<forall>q \<in> set (allPixels (sps ! ?j)). 0 \<le> q \<and> q < int (length selP)"
      using px len by auto
    from markPixels_ok[OF this, of ?c] obtain p1 where
      m: "markPixels ?c (allPixels (sps ! ?j)) selP = Some p1" and lp: "length p1 = length selP"
      and mv: "\<forall>p<length selP. p1 ! p = (if int p \<in> set (allPixels (sps ! ?j)) then ?c else selP ! p)"
      by blast
    have inv': "filterInv below scores thr labels (length sps) (k + 1) ?s p1"
      unfolding filterInv_def
    proof (intro conjI allI impI)
      show "length ?s = length sps" using len by simp
      show "length p1 = length labels" using lp len by simp
    next
      fix i assume i: "i < nat (k + 1)"
      show "?s ! i = (if below then scores ! i < thr else scores ! i \<ge> thr)"
      proof (cases "i = ?j")
        case True
        then show ?thesis using j len by simp
      next
        case False
        then have "i < nat k" using i "1.prems"(3) by linarith
        then show ?thesis using False isl by simp
      qed
    next
      fix p assume p: "p < length labels" "labels ! p < k + 1"
      have "labels ! p \<in> set labels" using p by simp
      with vl have l0: "0 \<le> labels ! p" by (auto simp: validLabels_def)
      show "p1 ! p = ?s ! nat (labels ! p)"
      proof (cases "labels ! p = k")
        case True
        then have "int p \<in> set (allPixels (sps ! ?j))" using px p by auto
        then have "p1 ! p = ?c" using mv p len by simp
        moreover have "?s ! nat (labels ! p) = ?c" using True j len by simp
        ultimately show ?thesis by simp
      next
        case False
        then have lt: "labels ! p < k" using p by simp
        have "int p \<notin> set (allPixels (sps ! ?j))" using px False by auto
        then have "p1 ! p = selP ! p" using mv p len by simp
        also have "\<dots> = selS ! nat (labels ! p)" using ip p lt by simp
        also have "\<dots> = ?s ! nat (labels ! p)" using lt l0 by simp
        finally show ?thesis .
      qed
    qed
    have "\<exists>selS' selP'. filterSuperpixels e below scores thr sps (k + 1, ?s, p1)
             = Some (max (k + 1) e, selS', selP')
         \<and> filterInv below scores thr labels (length sps) (max (k + 1) e) selS' selP'"
      using "1.hyps"[OF True r1 refl w1 r2 m "1.prems"(1,2) _ "1.prems"(4) inv'] "1.prems"(3) by simp
    moreover have "max (k + 1) e = max k e" using True by simp
    ultimately show ?thesis
      using True r1 w1 r2 m by (subst filterSuperpixels.simps) (simp add: Let_def)
  qed
qed

lemma filterStage_inv:
  "\<lbrakk> segmentationOf labels sps; length scores = length sps; n = int (length sps); 0 \<le> k; k \<le> n;
     filterInv below scores thr labels (length sps) k selS selP \<rbrakk>
   \<Longrightarrow> \<exists>selS' selP'. filterStage n below scores thr sps (k, selS, selP) = Some (selS', selP')
         \<and> filterInv below scores thr labels (length sps) n selS' selP'"
proof (induction n below scores thr sps "(k, selS, selP)" arbitrary: k selS selP rule: filterStage.induct)
  case (1 n below scores thr sps k selS selP)
  show ?case
  proof (cases "k = n")
    case True
    with "1.prems" show ?thesis by (subst filterStage.simps) simp
  next
    case False
    with "1.prems" have lt: "k < n" "\<not> n < k" by simp_all
    let ?e = "filterIncEnd n k"
    have e: "k < ?e" "?e \<le> n"
      using lt by (simp_all add: filterIncEnd_def Let_def LOCALDATAFILTER_CLUSTER_GRANULARITY_def)
    have e': "?e \<le> int (length sps)" using e "1.prems"(3) by simp
    from filterSuperpixels_inv[OF "1.prems"(1,2,4) e' "1.prems"(6)]
    obtain s1 p1 where s: "filterSuperpixels ?e below scores thr sps (k, selS, selP) = Some (?e, s1, p1)"
      and i1: "filterInv below scores thr labels (length sps) ?e s1 p1"
      using e by (auto simp: max_def)
    have e0: "0 \<le> ?e" using e "1.prems"(4) by simp
    have "\<exists>selS' selP'. filterStage n below scores thr sps (?e, s1, p1) = Some (selS', selP')
         \<and> filterInv below scores thr labels (length sps) n selS' selP'"
      by (rule "1.hyps"[OF False lt(2) s "1.prems"(1,2,3) e0 e(2) i1])
    then show ?thesis using False lt s by (subst filterStage.simps) simp
  qed
qed

text \<open>
  Claim C6, as amended. After the classification stage, superpixel \<open>j\<close> is selected exactly
  when its score is strictly below the threshold (standard-deviation and external bases)
  or at or above the threshold (size basis), and the selection flag of every pixel is
  the flag of the superpixel that its label names.
\<close>

theorem filter_classification_and_propagation:
  assumes "segmentationOf labels superpixels"
    and "length superpixelScores = length superpixels"
    and "length selectedSuperpixels = length superpixels"
    and "length selectedPixels = length labels"
  shows "\<exists>selS selP.
           filterStage (int (length superpixels)) (selectBelowThresholdOf basis) superpixelScores
               otsuThreshold superpixels (0, selectedSuperpixels, selectedPixels) = Some (selS, selP)
         \<and> length selS = length superpixels \<and> length selP = length labels
         \<and> (\<forall>j<length superpixels. selS ! j = codeSelected basis (superpixelScores ! j) otsuThreshold)
         \<and> (\<forall>p<length labels. selP ! p = selS ! nat (labels ! p))"
proof -
  let ?below = "selectBelowThresholdOf basis"
  have i0: "filterInv ?below superpixelScores otsuThreshold labels (length superpixels) 0
              selectedSuperpixels selectedPixels"
  proof -
    have "\<And>p. p < length labels \<Longrightarrow> \<not> labels ! p < 0"
    proof -
      fix p assume "p < length labels"
      then have "labels ! p \<in> set labels" by simp
      with assms(1) show "\<not> labels ! p < 0" by (auto simp: segmentationOf_def validLabels_def)
    qed
    then show ?thesis using assms(3,4) by (simp add: filterInv_def)
  qed
  have "\<exists>selS selP. filterStage (int (length superpixels)) ?below superpixelScores otsuThreshold
            superpixels (0, selectedSuperpixels, selectedPixels) = Some (selS, selP)
         \<and> filterInv ?below superpixelScores otsuThreshold labels (length superpixels)
            (int (length superpixels)) selS selP"
    by (rule filterStage_inv[OF assms(1,2) refl _ _ i0]) simp_all
  then obtain selS selP where
    run: "filterStage (int (length superpixels)) ?below superpixelScores otsuThreshold superpixels
            (0, selectedSuperpixels, selectedPixels) = Some (selS, selP)"
    and inv: "filterInv ?below superpixelScores otsuThreshold labels (length superpixels)
            (int (length superpixels)) selS selP"
    by blast
  from inv have l: "length selS = length superpixels" "length selP = length labels"
    and s: "\<forall>j<length superpixels. selS ! j
            = (if ?below then superpixelScores ! j < otsuThreshold else superpixelScores ! j \<ge> otsuThreshold)"
    and p: "\<forall>p<length labels. labels ! p < int (length superpixels) \<longrightarrow> selP ! p = selS ! nat (labels ! p)"
    by (simp_all add: filterInv_def)
  have s': "\<forall>j<length superpixels. selS ! j = codeSelected basis (superpixelScores ! j) otsuThreshold"
    using s by (cases basis) (simp_all add: codeSelected_def)
  have p': "\<forall>p<length labels. selP ! p = selS ! nat (labels ! p)"
  proof (intro allI impI)
    fix q assume q: "q < length labels"
    then have "labels ! q \<in> set labels" by simp
    with assms(1) have "labels ! q < int (length superpixels)"
      by (auto simp: segmentationOf_def validLabels_def)
    with p q show "selP ! q = selS ! nat (labels ! q)" by simp
  qed
  show ?thesis
    by (rule exI[of _ selS], rule exI[of _ selP]) (intro conjI run l s' p')
qed

theorem filter_classification_and_propagation_witness:
  "segmentationOf [0] [exampleSuperpixel] \<and> length [2 :: real] = length [exampleSuperpixel]
   \<and> length [False] = length [exampleSuperpixel] \<and> length [False] = length [0 :: int]
   \<and> (\<exists>selS selP.
           filterStage (int (length [exampleSuperpixel])) (selectBelowThresholdOf SIZE) [2]
               1 [exampleSuperpixel] (0, [False], [False]) = Some (selS, selP)
         \<and> length selS = length [exampleSuperpixel] \<and> length selP = length [0 :: int]
         \<and> (\<forall>j<length [exampleSuperpixel]. selS ! j = codeSelected SIZE ([2] ! j) 1)
         \<and> (\<forall>p<length [0 :: int]. selP ! p = selS ! nat ([0] ! p)))"
proof -
  have h1: "segmentationOf [0] [exampleSuperpixel]"
    by (auto simp: segmentationOf_def validLabels_def exampleSuperpixel_def allPixels_def)
  have h2: "length [2 :: real] = length [exampleSuperpixel]" by simp
  have h3: "length [False] = length [exampleSuperpixel]" by simp
  have h4: "length [False] = length [0 :: int]" by simp
  note r = filter_classification_and_propagation[OF h1 h2 h3 h4, of SIZE 1]
  show ?thesis by (intro conjI h1 h2 h3 h4 r)
qed

text \<open>
  Claim C6, as stated, fails for the size basis at a score equal to the threshold: the
  superpixel is selected although its score is not above the threshold.
\<close>

theorem size_basis_selects_at_threshold_counterexample:
  "filterStage 1 (selectBelowThresholdOf SIZE) [1] 1 [exampleSuperpixel] (0, [False], [False])
     = Some ([True], [True])
   \<and> \<not> specSelected SIZE 1 1"
  by (simp add: filterSuperpixels.simps filterIncEnd_def LOCALDATAFILTER_CLUSTER_GRANULARITY_def
      rd_def wr_def exampleSuperpixel_def allPixels_def specSelected_def Let_def)

section \<open>Failure and output of an algorithm\<close>











section \<open>Termination and exit of the k-means loop\<close>












lemma getLoopLimit_kmeans:
  "buffersOk s \<Longrightarrow> inKMeans (slic_progress s) \<Longrightarrow>
   getLoopLimit s = Some (if slic_progress s = K_MEANS_UPDATE_CENTERS
                          then img_nPixels (the (alg_input s)) else slic_kParam s)"
  by (auto simp: getLoopLimit_def inKMeans_def buffersOk_def split: option.splits)


lemma loopLimit_nonneg:
  "buffersOk s \<Longrightarrow> inKMeans (slic_progress s) \<Longrightarrow> getLoopLimit s = Some l \<Longrightarrow> 0 \<le> l"
  by (auto simp: getLoopLimit_def inKMeans_def buffersOk_def split: option.splits)













lemma initializedExample_eq:
  "SLIC_initialize exampleMemory SLIC_new exampleImage = Some (True, initializedExample)"
  by (simp add: initializedExample_def SLIC_initialize_def Algorithm_initialize_def SLIC_cleanup_def
        superpixelsDeletable_def SLIC_new_def SLIC_DEFAULT_K_def exampleImage_def Let_def
        Algorithm_cleanup_def Algorithm_finalizeOutput_def)










section \<open>Initialization of the Local-Data Filter\<close>












end
